theory Spec2Isabelle
  imports Main "HOL-Library.AList" "HOL-Library.Sublist"
begin

section \<open>The file system the image tools work on\<close>

text \<open>
  The modules \<^verbatim>\<open>iso/injection.py\<close> and \<^verbatim>\<open>udib/modiso.py\<close> act on the file system
  through \<^verbatim>\<open>pathlib\<close>, \<^verbatim>\<open>open\<close>, \<^verbatim>\<open>gzip\<close>, \<^verbatim>\<open>tempfile\<close> and external programs. The file
  system is modelled as an association list from absolute paths (the list of their
  components below the root) to nodes; the order of the list is the order in which a
  directory is iterated. A node is a regular file (content and permission bits), a
  directory (permission bits) or a symbolic link (the path it points to).

  What the model leaves out: hard links, the search bit of directories (every directory
  can be traversed), owners and groups (the process owns every node and is not the
  super-user, so the owner's read and write bits decide), symbolic links in the middle
  of a path (only the last component of a path may be a link), the expansion of
  \<^verbatim>\<open>~\<close>, and failures of the hardware.
\<close>

type_synonym path = "string list"

type_synonym bytes = string

datatype node = File bytes nat | Dir nat | Symlink path

type_synonym fs = "(path \<times> node) list"

text \<open>
  The messages of the \<^verbatim>\<open>RuntimeError\<close>s the modules raise, one per format string, and
  the one \<^verbatim>\<open>Path.resolve\<close> raises.
\<close>

datatype message =
    ExtractFailed path
  | AppendFailed string path
  | NotAnImage path
  | InvalidChar nat
  | RepackFailed path
  | SymlinkLoop path

text \<open>
  The exceptions: those the modules raise themselves and those the library calls raise
  (\<^verbatim>\<open>OSError\<close> stands for the errno \<^verbatim>\<open>ELOOP\<close>).
\<close>

datatype error =
    FileNotFoundError path
  | NotADirectoryError path
  | FileExistsError path
  | IsADirectoryError path
  | PermissionError path
  | OSError path
  | BadGzipFile path
  | ValueError path
  | AssertionError string
  | RuntimeError message
  | TypeError

text \<open>
  A call ends with the exception it raised, if any, and with the file system as the
  call left it: a call that fails half-way keeps what it had done.
\<close>

type_synonym outcome = "error option \<times> fs"

subsection \<open>Permission bits\<close>

definition oct :: "nat \<Rightarrow> nat \<Rightarrow> nat \<Rightarrow> nat" where
  "oct u g w = u * 64 + g * 8 + w"

definition may_read :: "nat \<Rightarrow> bool" where
  "may_read m = ((m div 256) mod 2 = 1)"

definition may_write :: "nat \<Rightarrow> bool" where
  "may_write m = ((m div 128) mod 2 = 1)"

subsection \<open>Paths\<close>

definition name_of :: "path \<Rightarrow> string" where
  "name_of p = (if p = [] then [] else last p)"

definition parent :: "path \<Rightarrow> path" where
  "parent p = butlast p"

definition rfind_dot :: "string \<Rightarrow> nat option" where
  "rfind_dot s =
     (let t = length (takeWhile (\<lambda>c. c \<noteq> CHR ''.'') (rev s))
      in if t = length s then None else Some (length s - 1 - t))"

text \<open>\<^verbatim>\<open>PurePath.suffix\<close>: from the last dot of the name, unless that dot is first or last.\<close>

definition py_suffix :: "string \<Rightarrow> string" where
  "py_suffix nm =
     (case rfind_dot nm of
        None \<Rightarrow> []
      | Some i \<Rightarrow> if 0 < i \<and> i < length nm - 1 then drop i nm else [])"

text \<open>\<^verbatim>\<open>PurePath.with_suffix("")\<close>: the name loses its suffix.\<close>

definition with_suffix_empty :: "path \<Rightarrow> path" where
  "with_suffix_empty p =
     parent p @ [take (length (name_of p) - length (py_suffix (name_of p))) (name_of p)]"

text \<open>\<^verbatim>\<open>str(path)\<close>.\<close>

definition str_of_path :: "path \<Rightarrow> string" where
  "str_of_path p = (if p = [] then ''/'' else concat (map (\<lambda>c. CHR ''/'' # c) p))"

subsection \<open>Symbolic links and \<^verbatim>\<open>stat\<close>\<close>

text \<open>
  Following the link at the end of a path with at most \<open>n\<close> look-ups, hence through at
  most \<open>n - 1\<close> links; \<open>None\<close> when the look-ups are used up.
\<close>

fun follow :: "nat \<Rightarrow> fs \<Rightarrow> path \<Rightarrow> path option" where
  "follow 0 fs p = None"
| "follow (Suc n) fs p =
     (case map_of fs p of
        Some (Symlink t) \<Rightarrow> follow n fs t
      | _ \<Rightarrow> Some p)"

text \<open>
  The kernel follows up to 40 links and fails with \<^verbatim>\<open>ELOOP\<close> at the next one: a chain of
  40 links is followed to its end, a chain of 41 is not.
\<close>

definition symloop_max :: nat where
  "symloop_max = 40"

definition stat :: "fs \<Rightarrow> path \<Rightarrow> (path \<times> node) option" where
  "stat fs p =
     (case follow (Suc symloop_max) fs p of
        None \<Rightarrow> None
      | Some q \<Rightarrow> (case map_of fs q of None \<Rightarrow> None | Some n \<Rightarrow> Some (q, n)))"

text \<open>\<^verbatim>\<open>Path.exists\<close>, \<^verbatim>\<open>Path.is_file\<close>, \<^verbatim>\<open>Path.is_dir\<close> follow links; \<^verbatim>\<open>Path.is_symlink\<close> does not.\<close>

definition exists_path :: "fs \<Rightarrow> path \<Rightarrow> bool" where
  "exists_path fs p = (stat fs p \<noteq> None)"

definition is_file :: "fs \<Rightarrow> path \<Rightarrow> bool" where
  "is_file fs p = (case stat fs p of Some (q, File c m) \<Rightarrow> True | _ \<Rightarrow> False)"

definition is_dir :: "fs \<Rightarrow> path \<Rightarrow> bool" where
  "is_dir fs p = (case stat fs p of Some (q, Dir m) \<Rightarrow> True | _ \<Rightarrow> False)"

definition is_symlink :: "fs \<Rightarrow> path \<Rightarrow> bool" where
  "is_symlink fs p = (case map_of fs p of Some (Symlink t) \<Rightarrow> True | _ \<Rightarrow> False)"

text \<open>
  \<^verbatim>\<open>Path.resolve()\<close> (not strict) of Python before 3.13. \<^verbatim>\<open>os.path.realpath\<close> follows
  the links in user space, without a limit on their number, and remembers the links it
  has followed; on meeting one of them again it stops there, and \<^verbatim>\<open>resolve\<close> raises
  \<^verbatim>\<open>RuntimeError("Symlink loop from ...")\<close>. A path that leads to nothing resolves to
  where it leads.
\<close>

function resolve_from :: "path list \<Rightarrow> fs \<Rightarrow> path \<Rightarrow> error + path" where
  "resolve_from seen fs p =
     (case map_of fs p of
        Some (Symlink t) \<Rightarrow>
          if p \<in> set seen then Inl (RuntimeError (SymlinkLoop p))
          else resolve_from (p # seen) fs t
      | _ \<Rightarrow> Inr p)"
  by pat_completeness auto
termination
proof (relation "measure (\<lambda>(seen, fs, p). length (filter (\<lambda>k. k \<notin> set seen) (map fst fs)))")
  show "wf (measure (\<lambda>(seen, fs, p). length (filter (\<lambda>k. k \<notin> set seen) (map fst fs))))"
    by simp
next
  fix seen :: "path list" and fs :: fs and p :: path and x2 t
  assume a: "map_of fs p = Some x2" "x2 = Symlink t" "p \<notin> set seen"
  have mem: "p \<in> set (filter (\<lambda>k. k \<notin> set seen) (map fst fs))"
    using a by (auto dest: map_of_SomeD intro: rev_image_eqI)
  have lt: "length (filter (\<lambda>k. k \<noteq> p) (filter (\<lambda>k. k \<notin> set seen) (map fst fs)))
            < length (filter (\<lambda>k. k \<notin> set seen) (map fst fs))"
    by (rule length_filter_less [of p]) (use mem in auto)
  have eq: "filter (\<lambda>k. k \<notin> set (p # seen)) (map fst fs) =
            filter (\<lambda>k. k \<noteq> p) (filter (\<lambda>k. k \<notin> set seen) (map fst fs))"
    by (auto intro: filter_cong)
  show "((p # seen, fs, t), (seen, fs, p))
        \<in> measure (\<lambda>(seen, fs, p). length (filter (\<lambda>k. k \<notin> set seen) (map fst fs)))"
    by (simp only: in_measure prod.case eq lt)
qed

declare resolve_from.simps [simp del]

definition resolve :: "fs \<Rightarrow> path \<Rightarrow> error + path" where
  "resolve fs p = resolve_from [] fs p"

subsection \<open>Opening, reading and writing files\<close>

text \<open>
  \<^verbatim>\<open>open(p, "rb")\<close> and, with \<open>rw\<close>, \<^verbatim>\<open>open(p, "r+b")\<close>: the handle is the path of the
  node that was opened.
\<close>

definition open_read :: "fs \<Rightarrow> path \<Rightarrow> bool \<Rightarrow> error + path" where
  "open_read fs p rw =
     (case follow (Suc symloop_max) fs p of
        None \<Rightarrow> Inl (OSError p)
      | Some q \<Rightarrow>
          (case map_of fs q of
             None \<Rightarrow> Inl (FileNotFoundError p)
           | Some (Dir m) \<Rightarrow> Inl (IsADirectoryError p)
           | Some (Symlink t) \<Rightarrow> Inl (OSError p)
           | Some (File c m) \<Rightarrow>
               if may_read m \<and> (if rw then may_write m else True) then Inr q
               else Inl (PermissionError p)))"

text \<open>
  \<^verbatim>\<open>open(p, "w")\<close>, \<^verbatim>\<open>"wb"\<close>, \<^verbatim>\<open>"w+b"\<close>: an existing file is emptied, a missing one is
  created in its directory with the bits 0644 (0666 under the usual umask 022).
\<close>

definition open_write :: "fs \<Rightarrow> path \<Rightarrow> error + (path \<times> fs)" where
  "open_write fs p =
     (case follow (Suc symloop_max) fs p of
        None \<Rightarrow> Inl (OSError p)
      | Some q \<Rightarrow>
          (case map_of fs q of
             Some (File c m) \<Rightarrow>
               if may_write m then Inr (q, AList.update q (File [] m) fs)
               else Inl (PermissionError p)
           | Some (Dir m) \<Rightarrow> Inl (IsADirectoryError p)
           | Some (Symlink t) \<Rightarrow> Inl (OSError p)
           | None \<Rightarrow>
               (case map_of fs (parent q) of
                  Some (Dir m) \<Rightarrow>
                    if may_write m then Inr (q, AList.update q (File [] (oct 6 4 4)) fs)
                    else Inl (PermissionError p)
                | Some (File c m) \<Rightarrow> Inl (NotADirectoryError p)
                | _ \<Rightarrow> Inl (FileNotFoundError p))))"

definition fread :: "fs \<Rightarrow> path \<Rightarrow> bytes" where
  "fread fs q = (case map_of fs q of Some (File c m) \<Rightarrow> c | _ \<Rightarrow> [])"

definition fwrite :: "path \<Rightarrow> bytes \<Rightarrow> fs \<Rightarrow> fs" where
  "fwrite q d fs =
     (case map_of fs q of Some (File c m) \<Rightarrow> AList.update q (File d m) fs | _ \<Rightarrow> fs)"

text \<open>\<^verbatim>\<open>Path.unlink\<close> removes the entry itself; \<^verbatim>\<open>Path.chmod\<close> follows links.\<close>

definition unlink :: "path \<Rightarrow> fs \<Rightarrow> error + fs" where
  "unlink p fs =
     (case map_of fs p of
        None \<Rightarrow> Inl (FileNotFoundError p)
      | Some (Dir m) \<Rightarrow> Inl (IsADirectoryError p)
      | Some n \<Rightarrow>
          (case map_of fs (parent p) of
             Some (Dir m) \<Rightarrow>
               if may_write m then Inr (AList.delete p fs) else Inl (PermissionError p)
           | _ \<Rightarrow> Inl (NotADirectoryError p)))"

definition chmod :: "path \<Rightarrow> nat \<Rightarrow> fs \<Rightarrow> error + fs" where
  "chmod p m fs =
     (case stat fs p of
        Some (q, File c m0) \<Rightarrow> Inr (AList.update q (File c m) fs)
      | Some (q, Dir m0) \<Rightarrow> Inr (AList.update q (Dir m) fs)
      | _ \<Rightarrow> Inl (FileNotFoundError p))"

subsection \<open>Facts about links\<close>

lemma follow_numeral:
  "follow (numeral k) fs p =
     (case map_of fs p of
        Some (Symlink t) \<Rightarrow> follow (pred_numeral k) fs t
      | _ \<Rightarrow> Some p)"
  by (simp add: numeral_eq_Suc)

lemma follow_not_link:
  "follow n fs p = Some q \<Longrightarrow> map_of fs q = Some (Symlink t) \<Longrightarrow> False"
  by (induction n fs p rule: follow.induct) (auto split: option.splits node.splits)

lemma follow_fixed:
  "follow n fs p = Some q \<Longrightarrow> follow (Suc m) fs q = Some q"
  by (auto split: option.splits node.splits dest: follow_not_link)

lemma follow_absent:
  "map_of fs p = None \<Longrightarrow> follow (Suc n) fs p = Some p"
  by simp

lemma stat_absent:
  "map_of fs p = None \<Longrightarrow> stat fs p = None"
  by (simp add: stat_def)

lemma follow_not_symlink:
  "\<not> is_symlink fs p \<Longrightarrow> follow (Suc n) fs p = Some p"
  by (cases "map_of fs p") (auto simp: is_symlink_def split: node.splits)

lemma stat_file:
  "stat fs p = Some (q, n) \<Longrightarrow> follow (Suc symloop_max) fs p = Some q \<and> map_of fs q = Some n"
  by (auto simp: stat_def split: option.splits)

lemma stat_target:
  assumes "stat fs p = Some (q, n)"
  shows "stat fs q = Some (q, n)"
proof -
  have q: "follow (Suc symloop_max) fs p = Some q" "map_of fs q = Some n"
    using stat_file [OF assms] by simp_all
  have "follow (Suc symloop_max) fs q = Some q"
    by (rule follow_fixed [OF q(1)])
  with q(2) show ?thesis by (simp add: stat_def)
qed

text \<open>More look-ups do not change where a path leads.\<close>

lemma follow_mono:
  "follow n fs p = Some q \<Longrightarrow> follow (Suc n) fs p = Some q"
proof (induction n arbitrary: p)
  case 0
  then show ?case by simp
next
  case (Suc n)
  show ?case
  proof (cases "map_of fs p")
    case None
    with Suc.prems show ?thesis by simp
  next
    case (Some nd)
    show ?thesis
    proof (cases nd)
      case (Symlink t)
      with Some Suc.prems have "follow n fs t = Some q" by simp
      then have "follow (Suc n) fs t = Some q" by (rule Suc.IH)
      with Some Symlink show ?thesis by simp
    qed (use Some Suc.prems in simp_all)
  qed
qed

lemma follow_least:
  "follow m fs p = Some q \<Longrightarrow> \<exists>n. follow (Suc n) fs p = Some q \<and> follow n fs p = None"
proof (induction m)
  case 0
  then show ?case by simp
next
  case (Suc m)
  show ?case
  proof (cases "follow m fs p")
    case None
    with Suc.prems show ?thesis by blast
  next
    case (Some q')
    from follow_mono [OF Some] Suc.prems have "q' = q" by simp
    with Some Suc.IH show ?thesis by simp
  qed
qed

text \<open>
  \<^verbatim>\<open>Path.resolve\<close> and the kernel agree: a path the kernel follows to its end resolves
  to that end, and a resolved path is no link.
\<close>

lemma resolve_not_symlink:
  "\<not> is_symlink fs p \<Longrightarrow> resolve fs p = Inr p"
  unfolding resolve_def
  by (subst resolve_from.simps) (auto simp: is_symlink_def split: option.splits node.splits)

lemma resolve_absent:
  "map_of fs p = None \<Longrightarrow> resolve fs p = Inr p"
  by (simp add: resolve_not_symlink is_symlink_def)

lemma resolve_from_not_link:
  "resolve_from seen fs p = Inr q \<Longrightarrow> \<not> is_symlink fs q"
proof (induction seen fs p rule: resolve_from.induct)
  case (1 seen fs p)
  show ?case
  proof (cases "map_of fs p")
    case None
    with "1.prems" show ?thesis
      by (subst (asm) resolve_from.simps) (simp add: is_symlink_def)
  next
    case (Some nd)
    show ?thesis
    proof (cases nd)
      case (Symlink t)
      with Some "1.prems" have "p \<notin> set seen" "resolve_from (p # seen) fs t = Inr q"
        by (subst (asm) resolve_from.simps; simp split: if_splits)+
      with "1.IH" [OF Some Symlink] show ?thesis by simp
    qed (use Some "1.prems" in \<open>subst (asm) resolve_from.simps; simp add: is_symlink_def\<close>)+
  qed
qed

lemma resolve_from_follow:
  "resolve_from seen fs p = Inr q \<Longrightarrow> \<exists>n. follow n fs p = Some q"
proof (induction seen fs p rule: resolve_from.induct)
  case (1 seen fs p)
  show ?case
  proof (cases "map_of fs p")
    case None
    with "1.prems" have "q = p"
      by (subst (asm) resolve_from.simps) simp
    with None have "follow (Suc 0) fs p = Some q" by simp
    then show ?thesis by blast
  next
    case (Some nd)
    show ?thesis
    proof (cases nd)
      case (Symlink t)
      with Some "1.prems" have "p \<notin> set seen" "resolve_from (p # seen) fs t = Inr q"
        by (subst (asm) resolve_from.simps; simp split: if_splits)+
      with "1.IH" [OF Some Symlink] obtain n where "follow n fs t = Some q" by blast
      with Some Symlink have "follow (Suc n) fs p = Some q" by simp
      then show ?thesis by blast
    next
      case (File c m)
      with Some "1.prems" have "q = p"
        by (subst (asm) resolve_from.simps) simp
      with Some File have "follow (Suc 0) fs p = Some q" by simp
      then show ?thesis by blast
    next
      case (Dir m)
      with Some "1.prems" have "q = p"
        by (subst (asm) resolve_from.simps) simp
      with Some Dir have "follow (Suc 0) fs p = Some q" by simp
      then show ?thesis by blast
    qed
  qed
qed

lemma follow_resolve_from:
  "follow (Suc n) fs p = Some q \<Longrightarrow> follow n fs p = None \<Longrightarrow>
   (\<forall>s\<in>set seen. follow (Suc n) fs s = None) \<Longrightarrow> resolve_from seen fs p = Inr q"
proof (induction n arbitrary: p seen)
  case 0
  from "0.prems"(1) have "\<not> is_symlink fs p" "q = p"
    by (auto simp: is_symlink_def split: option.splits node.splits)
  then show ?case
    using resolve_not_symlink [of fs p]
    by (subst resolve_from.simps) (auto simp: is_symlink_def split: option.splits node.splits)
next
  case (Suc n)
  from Suc.prems(2) obtain t where t: "map_of fs p = Some (Symlink t)" "follow n fs t = None"
    by (auto split: option.splits node.splits)
  with Suc.prems(1) have ft: "follow (Suc n) fs t = Some q" by simp
  have notin: "p \<notin> set seen"
    using Suc.prems(1,3) by auto
  have "\<forall>s\<in>set (p # seen). follow (Suc n) fs s = None"
  proof
    fix s assume "s \<in> set (p # seen)"
    then consider "s = p" | "s \<in> set seen" by auto
    then show "follow (Suc n) fs s = None"
    proof cases
      case 1
      with Suc.prems(2) show ?thesis by simp
    next
      case 2
      with Suc.prems(3) have "follow (Suc (Suc n)) fs s = None" by blast
      then show ?thesis
        using follow_mono [of "Suc n" fs s] by (cases "follow (Suc n) fs s") auto
    qed
  qed
  with Suc.IH [OF ft t(2)] have "resolve_from (p # seen) fs t = Inr q" by blast
  with t(1) notin show ?case
    by (subst resolve_from.simps) simp
qed

lemma follow_resolve:
  assumes "follow n fs p = Some q"
  shows "resolve fs p = Inr q"
proof -
  from follow_least [OF assms] obtain k
    where "follow (Suc k) fs p = Some q" "follow k fs p = None" by blast
  then show ?thesis
    unfolding resolve_def by (intro follow_resolve_from) auto
qed

lemma stat_resolve:
  "stat fs p = Some (q, n) \<Longrightarrow> resolve fs p = Inr q"
  using stat_file follow_resolve by blast

lemma resolve_not_link:
  "resolve fs p = Inr q \<Longrightarrow> \<not> is_symlink fs q"
  unfolding resolve_def by (rule resolve_from_not_link)

lemma resolve_idem:
  "resolve fs p = Inr q \<Longrightarrow> resolve fs q = Inr q"
  by (simp add: resolve_not_link resolve_not_symlink)

text \<open>On a resolved path the kernel has no link to follow.\<close>

lemma stat_resolved:
  assumes "resolve fs p = Inr q"
  shows "stat fs q = (case map_of fs q of None \<Rightarrow> None | Some n \<Rightarrow> Some (q, n))"
  using follow_not_symlink [OF resolve_not_link [OF assms], of symloop_max]
  by (simp add: stat_def)

lemma exists_resolve:
  assumes "exists_path fs p"
  shows "\<exists>q. resolve fs p = Inr q \<and> exists_path fs q"
proof -
  from assms obtain q n where s: "stat fs p = Some (q, n)"
    by (auto simp: exists_path_def)
  from stat_resolve [OF s] stat_target [OF s] show ?thesis
    by (auto simp: exists_path_def)
qed

subsection \<open>How deep the links may be\<close>

text \<open>
  A ladder of \<open>k\<close> links: the file \<^verbatim>\<open>/f\<close>, the link \<^verbatim>\<open>/fl\<close> to it, the link \<^verbatim>\<open>/fll\<close> to
  that link, and so on. The kernel reaches the file from the 40th link and not from
  the 41st; \<^verbatim>\<open>Path.resolve\<close> reaches it from any.
\<close>

definition rung :: "nat \<Rightarrow> path" where
  "rung i = [CHR ''f'' # replicate i (CHR ''l'')]"

definition ladder :: "nat \<Rightarrow> fs" where
  "ladder k =
     (rung 0, File ''x'' (oct 6 4 4)) # map (\<lambda>i. (rung (Suc i), Symlink (rung i))) [0..<k]"

lemma rung_inject: "rung i = rung j \<longleftrightarrow> i = j"
proof
  assume "rung i = rung j"
  then have "length (replicate i (CHR ''l'')) = length (replicate j (CHR ''l''))"
    by (simp add: rung_def)
  then show "i = j" by simp
qed simp

lemma map_of_ladder_file: "map_of (ladder k) (rung 0) = Some (File ''x'' (oct 6 4 4))"
  by (simp add: ladder_def)

lemma map_of_ladder_link:
  "map_of (ladder k) (rung (Suc i)) = (if i < k then Some (Symlink (rung i)) else None)"
proof -
  have "map_of (map (\<lambda>i. (rung (Suc i), Symlink (rung i))) [0..<k]) (rung (Suc i)) =
        (if i < k then Some (Symlink (rung i)) else None)"
    by (induction k) (auto simp: rung_inject map_add_def split: option.splits)
  then show ?thesis
    by (simp add: ladder_def rung_inject)
qed

lemma follow_ladder:
  "i \<le> k \<Longrightarrow> follow n (ladder k) (rung i) = (if i < n then Some (rung 0) else None)"
proof (induction i arbitrary: n)
  case 0
  then show ?case by (cases n) (simp_all add: map_of_ladder_file)
next
  case (Suc i)
  then show ?case by (cases n) (simp_all add: map_of_ladder_link)
qed

lemma kernel_link_limit:
  "exists_path (ladder 40) (rung 40) \<and>
   \<not> exists_path (ladder 41) (rung 41) \<and>
   open_read (ladder 41) (rung 41) False = Inl (OSError (rung 41)) \<and>
   resolve (ladder 41) (rung 41) = Inr (rung 0)"
proof -
  have "follow 42 (ladder 41) (rung 41) = Some (rung 0)"
    by (simp add: follow_ladder)
  then have "resolve (ladder 41) (rung 41) = Inr (rung 0)"
    by (rule follow_resolve)
  then show ?thesis
    by (simp add: exists_path_def stat_def open_read_def symloop_max_def follow_ladder
        map_of_ladder_file del: follow.simps)
qed

section \<open>Extracting the master boot record\<close>

text \<open>
  \<^verbatim>\<open>extract_mbr_from_iso\<close> of \<^verbatim>\<open>udib/modiso.py\<close>, which takes both paths as they are
  given.
\<close>

definition modiso_extract_mbr_from_iso :: "path \<Rightarrow> path \<Rightarrow> fs \<Rightarrow> outcome" where
  "modiso_extract_mbr_from_iso path_to_output_file path_to_source_iso fs =
     (if exists_path fs path_to_output_file
        then (Some (FileExistsError path_to_output_file), fs)
      else if \<not> is_file fs path_to_source_iso
        then (Some (FileNotFoundError path_to_source_iso), fs)
      else if py_suffix (name_of path_to_source_iso) \<notin> set [''.iso'', ''.img'']
        then (Some (RuntimeError (NotAnImage path_to_source_iso)), fs)
      else
        (case open_read fs path_to_source_iso True of
           Inl e \<Rightarrow> (Some e, fs)
         | Inr iso_file \<Rightarrow>
             (case open_write fs path_to_output_file of
                Inl e \<Rightarrow> (Some e, fs)
              | Inr (mbr_file, fs1) \<Rightarrow>
                  (None, fwrite mbr_file (take 432 (fread fs1 iso_file)) fs1))))"

text \<open>
  \<^verbatim>\<open>extract_mbr_from_iso\<close> of \<^verbatim>\<open>iso/injection.py\<close>, which first resolves the output
  path, and not the source path.
\<close>

definition extract_mbr_from_iso :: "path \<Rightarrow> path \<Rightarrow> fs \<Rightarrow> outcome" where
  "extract_mbr_from_iso output_arg path_to_source_iso fs =
     (case resolve fs output_arg of
        Inl e \<Rightarrow> (Some e, fs)
      | Inr path_to_output_file \<Rightarrow>
          if exists_path fs path_to_output_file
            then (Some (FileExistsError path_to_output_file), fs)
          else if \<not> is_file fs path_to_source_iso
            then (Some (FileNotFoundError path_to_source_iso), fs)
          else if py_suffix (name_of path_to_source_iso) \<notin> set [''.iso'', ''.img'']
            then (Some (RuntimeError (NotAnImage path_to_source_iso)), fs)
          else
            (case open_read fs path_to_source_iso True of
               Inl e \<Rightarrow> (Some e, fs)
             | Inr iso_file \<Rightarrow>
                 (case open_write fs path_to_output_file of
                    Inl e \<Rightarrow> (Some e, fs)
                  | Inr (mbr_file, fs1) \<Rightarrow>
                      (None, fwrite mbr_file (take 432 (fread fs1 iso_file)) fs1))))"

section \<open>What lies outside the modules\<close>

text \<open>
  The library functions and external programs the modules call are parameters of the
  model: the two directions of \<^verbatim>\<open>gzip\<close> (\<open>None\<close> is \<^verbatim>\<open>BadGzipFile\<close>),
  \<^verbatim>\<open>hashlib.md5(...).hexdigest()\<close>, the Unicode table behind \<^verbatim>\<open>\w\<close> beyond Latin-1, and
  the programs \<^verbatim>\<open>xorriso\<close>, \<^verbatim>\<open>cpio\<close> and the shell of \<^verbatim>\<open>os.system\<close>, each an arbitrary
  change of the file system; those run through \<^verbatim>\<open>subprocess\<close> also give an exit
  status. The last of them, \<open>shell\<close>, is \<^verbatim>\<open>/bin/sh -c\<close> as \<^verbatim>\<open>subprocess.run\<close> starts it
  for a list of arguments with \<^verbatim>\<open>shell=True\<close>: the first item of the list is the command
  line, the others are the positional parameters of the shell. The programs are taken
  to be installed.
\<close>

record tools =
  gunzip :: "bytes \<Rightarrow> bytes option"
  gzip_compress :: "bytes \<Rightarrow> bytes"
  md5_hexdigest :: "bytes \<Rightarrow> string"
  unicode_alnum :: "nat \<Rightarrow> bool"
  xorriso_extract :: "path \<Rightarrow> path \<Rightarrow> fs \<Rightarrow> nat \<times> fs"
  xorriso_mkisofs :: "nat list \<Rightarrow> path \<Rightarrow> path \<Rightarrow> path \<Rightarrow> fs \<Rightarrow> nat \<times> fs"
  cpio_append :: "path \<Rightarrow> path \<Rightarrow> string \<Rightarrow> fs \<Rightarrow> nat \<times> fs"
  os_system :: "string \<Rightarrow> fs \<Rightarrow> fs"
  shell :: "string \<Rightarrow> string list \<Rightarrow> fs \<Rightarrow> nat \<times> fs"

section \<open>Statements in sequence\<close>

text \<open>
  A library call that either raises or changes the file system, as a statement; and a
  block of statements, which stops at the first exception.
\<close>

definition atomic :: "(fs \<Rightarrow> error + fs) \<Rightarrow> fs \<Rightarrow> outcome" where
  "atomic f fs = (case f fs of Inl e \<Rightarrow> (Some e, fs) | Inr fs' \<Rightarrow> (None, fs'))"

fun block :: "(fs \<Rightarrow> outcome) list \<Rightarrow> fs \<Rightarrow> outcome" where
  "block [] fs = (None, fs)"
| "block (stmt # stmts) fs =
     (case stmt fs of
        (None, fs') \<Rightarrow> block stmts fs'
      | (Some e, fs') \<Rightarrow> (Some e, fs'))"

section \<open>Appending a file to the initrd archive\<close>

text \<open>
  \<^verbatim>\<open>with gzip.open(src, "rb") as file_gz: with open(dst, "wb") as file_raw:
  shutil.copyfileobj(file_gz, file_raw)\<close>. When the data is not a gzip stream the
  destination has been created and is left with what was written so far, modelled as
  nothing.
\<close>

definition gunzip_file :: "tools \<Rightarrow> path \<Rightarrow> path \<Rightarrow> fs \<Rightarrow> outcome" where
  "gunzip_file T src dst fs =
     (case open_read fs src False of
        Inl e \<Rightarrow> (Some e, fs)
      | Inr file_gz \<Rightarrow>
          (case open_write fs dst of
             Inl e \<Rightarrow> (Some e, fs)
           | Inr (file_raw, fs1) \<Rightarrow>
               (case gunzip T (fread fs1 file_gz) of
                  None \<Rightarrow> (Some (BadGzipFile src), fs1)
                | Some d \<Rightarrow> (None, fwrite file_raw d fs1))))"

text \<open>
  \<^verbatim>\<open>with gzip.open(dst, "wb") as file_gz: with open(src, "rb") as file_raw:
  shutil.copyfileobj(file_raw, file_gz)\<close>: the archive is created before the raw file is
  opened, and closed as an empty stream when that fails.
\<close>

definition gzip_file :: "tools \<Rightarrow> path \<Rightarrow> path \<Rightarrow> fs \<Rightarrow> outcome" where
  "gzip_file T src dst fs =
     (case open_write fs dst of
        Inl e \<Rightarrow> (Some e, fs)
      | Inr (file_gz, fs1) \<Rightarrow>
          (case open_read fs1 src False of
             Inl e \<Rightarrow> (Some e, fwrite file_gz (gzip_compress T []) fs1)
           | Inr file_raw \<Rightarrow>
               (None, fwrite file_gz (gzip_compress T (fread fs1 file_raw)) fs1)))"

text \<open>
  The \<^verbatim>\<open>try\<close> block of \<^verbatim>\<open>iso/injection.py\<close>: the arguments are computed, among them
  \<^verbatim>\<open>path_to_initrd_extracted.resolve()\<close>, then \<^verbatim>\<open>subprocess.Popen\<close> with \<^verbatim>\<open>cwd=base_dir\<close>,
  then \<^verbatim>\<open>communicate\<close>. \<^verbatim>\<open>Popen\<close> raises when the working directory is missing; neither
  call looks at the exit status, and neither raises \<^verbatim>\<open>CalledProcessError\<close>, the one
  exception the \<^verbatim>\<open>except\<close> clause would turn into a \<^verbatim>\<open>RuntimeError\<close>.
\<close>

definition popen_cpio :: "tools \<Rightarrow> path \<Rightarrow> path \<Rightarrow> string \<Rightarrow> fs \<Rightarrow> outcome" where
  "popen_cpio T path_to_initrd_extracted base_dir relative_path_to_input_file fs =
     (case resolve fs path_to_initrd_extracted of
        Inl e \<Rightarrow> (Some e, fs)
      | Inr archive_file \<Rightarrow>
          if \<not> exists_path fs base_dir then (Some (FileNotFoundError base_dir), fs)
          else if \<not> is_dir fs base_dir then (Some (NotADirectoryError base_dir), fs)
          else
            (case cpio_append T archive_file base_dir relative_path_to_input_file fs of
               (returncode, fs') \<Rightarrow> (None, fs')))"

text \<open>\<^verbatim>\<open>append_file_contents_to_initrd_archive\<close> of \<^verbatim>\<open>iso/injection.py\<close>.\<close>

definition append_file_contents_to_initrd_archive ::
  "tools \<Rightarrow> path \<Rightarrow> path \<Rightarrow> string \<Rightarrow> fs \<Rightarrow> outcome" where
  "append_file_contents_to_initrd_archive T archive_arg base_dir relative_path_to_input_file fs =
     (case resolve fs archive_arg of
        Inl e \<Rightarrow> (Some e, fs)
      | Inr path_to_initrd_archive \<Rightarrow>
          (let path_to_initrd_extracted = with_suffix_empty path_to_initrd_archive in
           if \<not> is_file fs path_to_initrd_archive
             then (Some (FileNotFoundError path_to_initrd_archive), fs)
           else if name_of path_to_initrd_archive \<noteq> ''initrd.gz''
             then (Some (AssertionError (name_of path_to_initrd_archive)), fs)
           else
             block
               [atomic (chmod path_to_initrd_archive (oct 6 4 4)),
                atomic (chmod (parent path_to_initrd_archive) (oct 7 5 5)),
                gunzip_file T path_to_initrd_archive path_to_initrd_extracted,
                atomic (unlink path_to_initrd_archive),
                popen_cpio T path_to_initrd_extracted base_dir relative_path_to_input_file,
                gzip_file T path_to_initrd_extracted path_to_initrd_archive,
                atomic (unlink path_to_initrd_extracted),
                atomic (chmod path_to_initrd_archive (oct 4 4 4)),
                atomic (chmod (parent path_to_initrd_archive) (oct 5 5 5))]
               fs))"

text \<open>
  The \<^verbatim>\<open>try\<close> block of \<^verbatim>\<open>udib/modiso.py\<close>: \<^verbatim>\<open>subprocess.run\<close> is given a list and
  \<^verbatim>\<open>shell=True\<close>, so the shell runs the command line \<^verbatim>\<open>echo\<close> with the rest of the list
  as its positional parameters; \<^verbatim>\<open>check=True\<close> raises \<^verbatim>\<open>CalledProcessError\<close> on a
  non-zero exit status, which the \<^verbatim>\<open>except\<close> clause turns into a \<^verbatim>\<open>RuntimeError\<close>.
\<close>

definition run_echo :: "tools \<Rightarrow> path \<Rightarrow> path \<Rightarrow> path \<Rightarrow> fs \<Rightarrow> outcome" where
  "run_echo T path_to_input_file path_to_initrd_extracted path_to_initrd_archive fs =
     (case resolve fs path_to_input_file of
        Inl e \<Rightarrow> (Some e, fs)
      | Inr input_file \<Rightarrow>
          (case resolve fs path_to_initrd_extracted of
             Inl e \<Rightarrow> (Some e, fs)
           | Inr archive_file \<Rightarrow>
               (case shell T ''echo''
                       [str_of_path input_file, ''|'', ''cpio'', ''-H'', ''newc'', ''-o'', ''-A'',
                        ''-F'', str_of_path archive_file] fs of
                  (returncode, fs') \<Rightarrow>
                    if returncode \<noteq> 0
                    then (Some (RuntimeError
                            (AppendFailed (str_of_path path_to_input_file)
                               path_to_initrd_archive)), fs')
                    else (None, fs'))))"

text \<open>
  \<^verbatim>\<open>append_file_contents_to_initrd_archive\<close> of \<^verbatim>\<open>udib/modiso.py\<close>: the paths are taken as
  they are given, and the name that is tested is the name of the path as given.
\<close>

definition modiso_append_file_contents_to_initrd_archive ::
  "tools \<Rightarrow> path \<Rightarrow> path \<Rightarrow> fs \<Rightarrow> outcome" where
  "modiso_append_file_contents_to_initrd_archive T path_to_initrd_archive path_to_input_file fs =
     (if \<not> is_file fs path_to_initrd_archive
        then (Some (FileNotFoundError path_to_initrd_archive), fs)
      else if name_of path_to_initrd_archive \<noteq> ''initrd.gz''
        then (Some (AssertionError (name_of path_to_initrd_archive)), fs)
      else if \<not> is_file fs path_to_input_file
        then (Some (FileNotFoundError path_to_input_file), fs)
      else
        (let path_to_initrd_extracted = with_suffix_empty path_to_initrd_archive in
         block
           [atomic (chmod path_to_initrd_archive (oct 6 4 4)),
            atomic (chmod (parent path_to_initrd_archive) (oct 7 5 5)),
            gunzip_file T path_to_initrd_archive path_to_initrd_extracted,
            atomic (unlink path_to_initrd_archive),
            run_echo T path_to_input_file path_to_initrd_extracted path_to_initrd_archive,
            gzip_file T path_to_initrd_extracted path_to_initrd_archive,
            atomic (unlink path_to_initrd_extracted),
            atomic (chmod path_to_initrd_archive (oct 4 4 4)),
            atomic (chmod (parent path_to_initrd_archive) (oct 5 5 5))]
           fs))"

section \<open>Repacking the image\<close>

text \<open>
  A Python \<^verbatim>\<open>str\<close> is a sequence of Unicode code points, and the pattern
  \<^verbatim>\<open>[^\w .-]\<close> is a \<^verbatim>\<open>str\<close> pattern: \<^verbatim>\<open>\w\<close> matches every character for which
  \<^verbatim>\<open>str.isalnum\<close> holds, and the underscore. The file system name is therefore a list of
  code points. The table of \<^verbatim>\<open>str.isalnum\<close> is written out for ASCII and Latin-1; beyond,
  it is the parameter \<open>unicode_alnum\<close>.
\<close>

definition ascii_alnum :: "nat \<Rightarrow> bool" where
  "ascii_alnum c = ((48 \<le> c \<and> c \<le> 57) \<or> (65 \<le> c \<and> c \<le> 90) \<or> (97 \<le> c \<and> c \<le> 122))"

definition latin1_alnum :: "nat \<Rightarrow> bool" where
  "latin1_alnum c =
     (c \<in> set [170, 178, 179, 181, 185, 186, 188, 189, 190] \<or>
      (192 \<le> c \<and> c \<le> 214) \<or> (216 \<le> c \<and> c \<le> 246) \<or> (248 \<le> c \<and> c \<le> 255))"

definition isalnum :: "tools \<Rightarrow> nat \<Rightarrow> bool" where
  "isalnum T c =
     (if c < 128 then ascii_alnum c
      else if c < 256 then latin1_alnum c
      else unicode_alnum T c)"

text \<open>One character matched by \<^verbatim>\<open>[^\w .-]\<close>; \<^verbatim>\<open>search\<close> returns the first match.\<close>

definition invalid_char :: "tools \<Rightarrow> nat \<Rightarrow> bool" where
  "invalid_char T c = (\<not> (isalnum T c \<or> c = 95 \<or> c = 32 \<or> c = 46 \<or> c = 45))"

definition regex_search :: "tools \<Rightarrow> nat list \<Rightarrow> nat option" where
  "regex_search T s = find (invalid_char T) s"

text \<open>
  \<^verbatim>\<open>repack_iso\<close> of \<^verbatim>\<open>iso/injection.py\<close>, which first resolves the three paths;
  \<^verbatim>\<open>subprocess.run(..., check=True)\<close> raises \<^verbatim>\<open>CalledProcessError\<close> on a non-zero exit
  status.
\<close>

definition repack_iso ::
  "tools \<Rightarrow> path \<Rightarrow> path \<Rightarrow> path \<Rightarrow> nat list \<Rightarrow> fs \<Rightarrow> outcome" where
  "repack_iso T output_arg mbr_arg root_arg created_iso_filesystem_name fs =
     (case resolve fs output_arg of
        Inl e \<Rightarrow> (Some e, fs)
      | Inr path_to_output_iso \<Rightarrow>
     (case resolve fs mbr_arg of
        Inl e \<Rightarrow> (Some e, fs)
      | Inr path_to_mbr_data_file \<Rightarrow>
     (case resolve fs root_arg of
        Inl e \<Rightarrow> (Some e, fs)
      | Inr path_to_input_files_root_dir \<Rightarrow>
          if exists_path fs path_to_output_iso
            then (Some (FileExistsError path_to_output_iso), fs)
          else if \<not> is_file fs path_to_mbr_data_file
            then (Some (FileNotFoundError path_to_mbr_data_file), fs)
          else if \<not> is_dir fs path_to_input_files_root_dir
            then (Some (NotADirectoryError path_to_input_files_root_dir), fs)
          else
            (case regex_search T created_iso_filesystem_name of
               Some c \<Rightarrow> (Some (RuntimeError (InvalidChar c)), fs)
             | None \<Rightarrow>
                 (case xorriso_mkisofs T created_iso_filesystem_name path_to_output_iso
                         path_to_mbr_data_file path_to_input_files_root_dir fs of
                    (returncode, fs') \<Rightarrow>
                      if returncode \<noteq> 0
                      then (Some (RuntimeError (RepackFailed path_to_input_files_root_dir)),
                            fs')
                      else (None, fs'))))))"

text \<open>
  \<^verbatim>\<open>repack_iso\<close> of \<^verbatim>\<open>udib/modiso.py\<close>: the checks are made on the paths as given, and
  the paths are resolved only for the arguments of \<^verbatim>\<open>xorriso\<close>, after the checks.
\<close>

definition modiso_repack_iso ::
  "tools \<Rightarrow> path \<Rightarrow> path \<Rightarrow> path \<Rightarrow> nat list \<Rightarrow> fs \<Rightarrow> outcome" where
  "modiso_repack_iso T path_to_output_iso path_to_mbr_data_file path_to_input_files_root_dir
       created_iso_filesystem_name fs =
     (if exists_path fs path_to_output_iso
        then (Some (FileExistsError path_to_output_iso), fs)
      else if \<not> is_file fs path_to_mbr_data_file
        then (Some (FileNotFoundError path_to_mbr_data_file), fs)
      else if \<not> is_dir fs path_to_input_files_root_dir
        then (Some (NotADirectoryError path_to_input_files_root_dir), fs)
      else
        (case regex_search T created_iso_filesystem_name of
           Some c \<Rightarrow> (Some (RuntimeError (InvalidChar c)), fs)
         | None \<Rightarrow>
     (case resolve fs path_to_output_iso of
        Inl e \<Rightarrow> (Some e, fs)
      | Inr output_iso \<Rightarrow>
     (case resolve fs path_to_mbr_data_file of
        Inl e \<Rightarrow> (Some e, fs)
      | Inr mbr_data_file \<Rightarrow>
     (case resolve fs path_to_input_files_root_dir of
        Inl e \<Rightarrow> (Some e, fs)
      | Inr input_files_root_dir \<Rightarrow>
          (case xorriso_mkisofs T created_iso_filesystem_name output_iso mbr_data_file
                  input_files_root_dir fs of
             (returncode, fs') \<Rightarrow>
               if returncode \<noteq> 0
               then (Some (RuntimeError (RepackFailed path_to_input_files_root_dir)), fs')
               else (None, fs')))))))"

text \<open>
  The character class of the specification, \<^verbatim>\<open>[A-Za-z0-9 ._-]\<close>, in the specification's
  words; it is compared with the class the code uses.
\<close>

definition spec_name_char :: "nat \<Rightarrow> bool" where
  "spec_name_char c =
     ((65 \<le> c \<and> c \<le> 90) \<or> (97 \<le> c \<and> c \<le> 122) \<or> (48 \<le> c \<and> c \<le> 57) \<or>
      c = 32 \<or> c = 46 \<or> c = 95 \<or> c = 45)"

section \<open>Regenerating the checksum manifest\<close>

text \<open>\<^verbatim>\<open>Path.iterdir\<close>: the entries of a directory, in the order of the file system.\<close>

definition iterdir :: "fs \<Rightarrow> path \<Rightarrow> error + path list" where
  "iterdir fs d =
     (case map_of fs d of
        Some (Dir m) \<Rightarrow>
          if may_read m then Inr (filter (\<lambda>p. p \<noteq> [] \<and> parent p = d) (map fst fs))
          else Inl (PermissionError d)
      | _ \<Rightarrow> Inl (NotADirectoryError d))"

text \<open>
  The body of a \<^verbatim>\<open>for\<close> loop that extends a list: the results in order, up to the first
  exception.
\<close>

fun gather :: "('a \<Rightarrow> error + 'b list) \<Rightarrow> 'a list \<Rightarrow> error + 'b list" where
  "gather f [] = Inr []"
| "gather f (x # xs) =
     (case f x of
        Inl e \<Rightarrow> Inl e
      | Inr ys \<Rightarrow> (case gather f xs of Inl e \<Rightarrow> Inl e | Inr zs \<Rightarrow> Inr (ys @ zs)))"

lemma gather_cong [fundef_cong]:
  "xs = ys \<Longrightarrow> (\<And>x. x \<in> set ys \<Longrightarrow> f x = g x) \<Longrightarrow> gather f xs = gather g ys"
  by (induction ys arbitrary: xs) (auto split: sum.splits)

text \<open>
  The number of entries strictly below the directory a path resolves to: it decreases
  in the recursion.
\<close>

definition below :: "fs \<Rightarrow> path \<Rightarrow> nat" where
  "below fs d =
     (case resolve fs d of
        Inl e \<Rightarrow> 0
      | Inr q \<Rightarrow> length (filter (strict_prefix q) (map fst fs)))"

lemma iterdir_below:
  assumes "resolve fs dir_arg = Inr d" "iterdir fs d = Inr subpaths" "x \<in> set subpaths"
    "\<not> is_symlink fs x"
  shows "below fs x < below fs dir_arg"
proof -
  from assms(2,3) have x: "x \<in> set (map fst fs)" "x \<noteq> []" "parent x = d"
    by (auto simp: iterdir_def split: option.splits node.splits if_splits)
  then have sp: "strict_prefix d x"
    by (metis append_butlast_last_id parent_def strict_prefixI')
  have sub: "filter (strict_prefix x) (map fst fs) =
             filter (strict_prefix x) (filter (strict_prefix d) (map fst fs))"
    using sp by (auto intro!: filter_cong dest: prefix_order.less_trans)
  have "length (filter (strict_prefix x) (filter (strict_prefix d) (map fst fs)))
        < length (filter (strict_prefix d) (map fst fs))"
    by (rule length_filter_less [of x]) (use x sp in auto)
  with sub show ?thesis
    using assms(1,4) by (simp add: below_def resolve_not_symlink)
qed

text \<open>
  \<^verbatim>\<open>_find_all_files_under\<close> of \<^verbatim>\<open>udib/modiso.py\<close>. \<^verbatim>\<open>iso/injection.py\<close> imports the function
  as \<^verbatim>\<open>find_all_files_under\<close> from \<^verbatim>\<open>core.utils\<close>, which is not among the sources; the two
  \<^verbatim>\<open>regenerate_iso_md5sums_file\<close> are the same line for line.
\<close>

function find_all_files_under :: "fs \<Rightarrow> path \<Rightarrow> error + path list" where
  "find_all_files_under fs dir_arg =
     (case resolve fs dir_arg of
        Inl e \<Rightarrow> Inl e
      | Inr parent_dir \<Rightarrow>
          if \<not> is_dir fs parent_dir then Inl (NotADirectoryError parent_dir)
          else
            (case iterdir fs parent_dir of
               Inl e \<Rightarrow> Inl e
             | Inr subpaths \<Rightarrow>
                 gather
                   (\<lambda>subpath.
                      if is_file fs subpath
                        then (case resolve fs subpath of
                                Inl e \<Rightarrow> Inl e
                              | Inr file \<Rightarrow> Inr [file])
                      else if \<not> is_symlink fs subpath \<and> is_dir fs subpath
                        then find_all_files_under fs subpath
                      else Inr [])
                   subpaths))"
  by pat_completeness auto
termination
proof (relation "measure (\<lambda>(fs, d). below fs d)")
  show "wf (measure (\<lambda>(fs, d). below fs d))" by simp
next
  fix fs :: fs and dir_arg :: path and parent_dir subpaths x
  assume a: "resolve fs dir_arg = Inr parent_dir" "iterdir fs parent_dir = Inr subpaths"
    "x \<in> set subpaths" "\<not> is_symlink fs x \<and> is_dir fs x"
  have "below fs x < below fs dir_arg"
    using a by (intro iterdir_below [of fs dir_arg parent_dir subpaths]) auto
  then show "((fs, x), (fs, dir_arg)) \<in> measure (\<lambda>(fs, d). below fs d)"
    by simp
qed

declare find_all_files_under.simps [simp del]

text \<open>\<^verbatim>\<open>PurePath.relative_to\<close> raises \<^verbatim>\<open>ValueError\<close> for a path outside the root.\<close>

definition relative_to :: "path \<Rightarrow> path \<Rightarrow> path option" where
  "relative_to root p = (if prefix root p then Some (drop (length root) p) else None)"

definition str_of_relpath :: "path \<Rightarrow> string" where
  "str_of_relpath r = (if r = [] then ''.'' else tl (str_of_path r))"

definition manifest_line :: "string \<Rightarrow> string \<Rightarrow> string" where
  "manifest_line digest rel = digest @ ''  '' @ rel @ [CHR 0x0A]"

text \<open>
  The loop over the files found, inside \<^verbatim>\<open>with open(path_to_md5sum_file, "w")\<close>: the
  exception, if any, and the text written before it, which reaches the file when the
  \<^verbatim>\<open>with\<close> block closes it.
\<close>

fun write_md5sums :: "tools \<Rightarrow> fs \<Rightarrow> path \<Rightarrow> path list \<Rightarrow> error option \<times> string" where
  "write_md5sums T fs root [] = (None, [])"
| "write_md5sums T fs root (subpath # subpaths) =
     (case open_read fs subpath False of
        Inl e \<Rightarrow> (Some e, [])
      | Inr file \<Rightarrow>
          (case relative_to root subpath of
             None \<Rightarrow> (Some (ValueError subpath), [])
           | Some rel \<Rightarrow>
               (case write_md5sums T fs root subpaths of
                  (r, text) \<Rightarrow>
                    (r, manifest_line (md5_hexdigest T (fread fs file)) (str_of_relpath rel)
                          @ text))))"

definition write_md5sum_file :: "tools \<Rightarrow> path \<Rightarrow> path \<Rightarrow> fs \<Rightarrow> outcome" where
  "write_md5sum_file T root path_to_md5sum_file fs =
     (case find_all_files_under fs root of
        Inl e \<Rightarrow> (Some e, fs)
      | Inr subpaths \<Rightarrow>
          (case open_write fs path_to_md5sum_file of
             Inl e \<Rightarrow> (Some e, fs)
           | Inr (md5sum_file, fs1) \<Rightarrow>
               (case write_md5sums T fs1 root subpaths of
                  (r, text) \<Rightarrow> (r, fwrite md5sum_file text fs1))))"

text \<open>\<^verbatim>\<open>regenerate_iso_md5sums_file\<close>.\<close>

definition regenerate_iso_md5sums_file :: "tools \<Rightarrow> path \<Rightarrow> fs \<Rightarrow> outcome" where
  "regenerate_iso_md5sums_file T root_arg fs =
     (case resolve fs root_arg of
        Inl e \<Rightarrow> (Some e, fs)
      | Inr path_to_extracted_iso_root \<Rightarrow>
          (let path_to_md5sum_file = path_to_extracted_iso_root @ [''md5sum.txt''] in
           if \<not> is_dir fs path_to_extracted_iso_root
             then (Some (NotADirectoryError path_to_extracted_iso_root), fs)
           else
             block
               [atomic (chmod path_to_md5sum_file (oct 6 4 4)),
                atomic (chmod (parent path_to_md5sum_file) (oct 7 5 5)),
                atomic (unlink path_to_md5sum_file),
                write_md5sum_file T path_to_extracted_iso_root path_to_md5sum_file,
                atomic (chmod path_to_md5sum_file (oct 4 4 4)),
                atomic (chmod (parent path_to_md5sum_file) (oct 5 5 5))]
               fs))"

section \<open>Extracting the image\<close>

text \<open>\<^verbatim>\<open>extract_iso\<close> of \<^verbatim>\<open>iso/injection.py\<close>.\<close>

definition extract_iso :: "tools \<Rightarrow> path \<Rightarrow> path \<Rightarrow> fs \<Rightarrow> outcome" where
  "extract_iso T output_arg input_arg fs =
     (case resolve fs output_arg of
        Inl e \<Rightarrow> (Some e, fs)
      | Inr path_to_output_dir \<Rightarrow>
     (case resolve fs input_arg of
        Inl e \<Rightarrow> (Some e, fs)
      | Inr path_to_input_file \<Rightarrow>
          if \<not> is_dir fs path_to_output_dir
            then (Some (NotADirectoryError path_to_output_dir), fs)
          else if \<not> is_file fs path_to_input_file
            then (Some (FileNotFoundError path_to_input_file), fs)
          else
            (case xorriso_extract T path_to_input_file path_to_output_dir fs of
               (returncode, fs') \<Rightarrow>
                 if returncode \<noteq> 0
                 then (Some (RuntimeError (ExtractFailed path_to_input_file)), fs')
                 else (None, fs'))))"

section \<open>The injection pipeline\<close>

text \<open>
  \<^verbatim>\<open>tempfile.TemporaryDirectory()\<close> creates a directory with the bits 0700 under a name
  that was free. The name the library draws is a parameter of the model; a name that
  is taken stands for the library finding no usable name. \<^verbatim>\<open>cleanup()\<close> removes the
  directory and all below it, whatever the permission bits. The finaliser that removes
  the directory when the object is garbage-collected runs after the function that
  created it has been left, and is not part of the model.
\<close>

definition mkdtemp :: "path \<Rightarrow> fs \<Rightarrow> error + fs" where
  "mkdtemp t fs =
     (if map_of fs t \<noteq> None then Inl (FileExistsError t)
      else
        (case map_of fs (parent t) of
           Some (Dir m) \<Rightarrow>
             if may_write m then Inr (AList.update t (Dir (oct 7 0 0)) fs)
             else Inl (PermissionError t)
         | _ \<Rightarrow> Inl (FileNotFoundError t)))"

definition rmtree :: "path \<Rightarrow> fs \<Rightarrow> fs" where
  "rmtree t fs = filter (\<lambda>(p, n). \<not> prefix t p) fs"

definition cleanup :: "path \<Rightarrow> fs \<Rightarrow> outcome" where
  "cleanup t fs = (None, rmtree t fs)"

text \<open>\<^verbatim>\<open>os.system\<close> returns the exit status, which the caller drops; it does not raise.\<close>

definition system :: "tools \<Rightarrow> string \<Rightarrow> fs \<Rightarrow> outcome" where
  "system T cmd fs = (None, os_system T cmd fs)"

text \<open>\<^verbatim>\<open>needle in haystack\<close> on strings.\<close>

fun substring_in :: "string \<Rightarrow> string \<Rightarrow> bool" where
  "substring_in s [] = (s = [])"
| "substring_in s (c # cs) = (prefix s (c # cs) \<or> substring_in s cs)"

datatype printer_arg = NoPrinter | APrinter | NotAPrinter

definition sq :: string where
  "sq = [CHR 0x27]"

definition dq :: string where
  "dq = [CHR 0x22]"

text \<open>The commands between the extraction of the MBR and the staging directory.\<close>

definition tree_commands :: "string \<Rightarrow> string \<Rightarrow> string \<Rightarrow> string \<Rightarrow> string list" where
  "tree_commands d arch dist testing =
     [''chmod +w '' @ sq @ d @ ''/install.'' @ arch @ sq,
      ''chmod -R +w '' @ sq @ d @ ''/install.'' @ arch @ ''/xen'' @ sq,
      ''rm -rf '' @ sq @ d @ ''/install.'' @ arch @ ''/xen'' @ sq,
      ''chmod -w '' @ sq @ d @ ''/install.'' @ arch @ sq,
      ''chmod +w '' @ d @ ''/boot/grub'',
      ''chmod +w '' @ d @ ''/boot/grub/grub.cfg'',
      ''chmod -R +w '' @ d @ ''/isolinux'',
      ''cp -r ./files_to_inject/* '' @ d @ ''/'',
      ''sed '' @ dq @ ''s@__ARCH__@'' @ arch @ ''@g'' @ dq @ '' -i '' @ dq @ d
         @ ''/isolinux/menu.cfg'' @ dq,
      ''sed '' @ dq @ ''s@__DIST__@'' @ dist @ ''@g'' @ dq @ '' -i '' @ dq @ d
         @ ''/preseeds/'' @ dq @ ''*'',
      ''sed '' @ dq @ ''s@__TESTING__@'' @ testing @ ''@g'' @ dq @ '' -i '' @ dq @ d
         @ ''/preseeds/'' @ dq @ ''*'',
      ''chmod -w '' @ d @ ''/boot/grub'',
      ''chmod -w '' @ d @ ''/boot/grub/grub.cfg'',
      ''chmod -R -w '' @ d @ ''/isolinux'',
      ''chmod -R -w '' @ d @ ''/preseeds'']"

definition staging_commands :: "string \<Rightarrow> string list" where
  "staging_commands t =
     [''mkdir -p '' @ t @ ''/usr/share/graphics/'',
      ''cp ./files_to_inject/logo.png '' @ t @ ''/usr/share/graphics/logo_debian.png'']"

text \<open>
  \<^verbatim>\<open>inject_files_into_iso\<close> of \<^verbatim>\<open>iso/injection.py\<close>, in two parts: the statements from
  the first \<^verbatim>\<open>TemporaryDirectory()\<close> to the last \<^verbatim>\<open>cleanup()\<close>, and the function with its
  checks of the arguments. The arguments \<open>tmp1\<close>, \<open>tmp2\<close> and \<open>tmp3\<close> are the names drawn
  for the three temporary directories, in the order of their creation. Printing is not
  modelled.
\<close>

definition pipeline ::
  "tools \<Rightarrow> path \<Rightarrow> path \<Rightarrow> path \<Rightarrow> path \<Rightarrow> path \<Rightarrow> nat list \<Rightarrow> (fs \<Rightarrow> outcome) list"
  where
  "pipeline T tmp1 tmp2 tmp3 path_to_output_iso_file path_to_input_iso_file
       iso_filesystem_name =
     (let path_to_extracted_iso_dir = tmp1;
          path_to_mbr_file = tmp2 @ [''mbr.bin''];
          arch = (if substring_in ''amd64'' (name_of path_to_input_iso_file)
                  then ''amd'' else ''386'');
          dist = (if substring_in ''debian-12'' (name_of path_to_input_iso_file)
                  then ''bookworm'' else ''bullseye'');
          testing = (if dist = ''bookworm'' then ''testing'' else [])
      in
      [atomic (mkdtemp tmp1),
       extract_iso T path_to_extracted_iso_dir path_to_input_iso_file,
       atomic (mkdtemp tmp2),
       extract_mbr_from_iso path_to_mbr_file path_to_input_iso_file]
      @ map (system T)
          (tree_commands (str_of_path path_to_extracted_iso_dir) arch dist testing)
      @ [atomic (mkdtemp tmp3)]
      @ map (system T) (staging_commands (str_of_path tmp3))
      @ [append_file_contents_to_initrd_archive T
           (path_to_extracted_iso_dir @ [''install.'' @ arch, ''gtk'', ''initrd.gz''])
           tmp3 ''usr/share/graphics/logo_debian.png'',
         regenerate_iso_md5sums_file T path_to_extracted_iso_dir,
         repack_iso T path_to_output_iso_file path_to_mbr_file path_to_extracted_iso_dir
           iso_filesystem_name,
         cleanup tmp3,
         cleanup tmp2,
         cleanup tmp1])"

definition inject_files_into_iso ::
  "tools \<Rightarrow> path \<Rightarrow> path \<Rightarrow> path \<Rightarrow> path \<Rightarrow> path \<Rightarrow> nat list \<Rightarrow> printer_arg \<Rightarrow> fs \<Rightarrow> outcome"
  where
  "inject_files_into_iso T tmp1 tmp2 tmp3 output_arg input_arg iso_filesystem_name printer fs =
     (case resolve fs input_arg of
        Inl e \<Rightarrow> (Some e, fs)
      | Inr path_to_input_iso_file \<Rightarrow>
          if \<not> is_file fs path_to_input_iso_file
            then (Some (FileNotFoundError path_to_input_iso_file), fs)
          else
     (case resolve fs output_arg of
        Inl e \<Rightarrow> (Some e, fs)
      | Inr path_to_output_iso_file \<Rightarrow>
          if is_file fs path_to_output_iso_file
            then (Some (FileExistsError path_to_output_iso_file), fs)
          else if \<not> is_dir fs (parent path_to_output_iso_file)
            then (Some (NotADirectoryError (parent path_to_output_iso_file)), fs)
          else if printer = NotAPrinter then (Some TypeError, fs)
          else
            block
              (pipeline T tmp1 tmp2 tmp3 path_to_output_iso_file path_to_input_iso_file
                 iso_filesystem_name)
              fs))"

section \<open>The source image as a frame\<close>

text \<open>
  The image at the path \<open>I\<close> is intact when \<open>I\<close> is a regular file with the content \<open>c\<close>
  and no other path leads to \<open>I\<close> through symbolic links, however many, so that only a
  write to \<open>I\<close> itself could change the content.
\<close>

definition image_intact :: "path \<Rightarrow> bytes \<Rightarrow> fs \<Rightarrow> bool" where
  "image_intact I c fs =
     ((case map_of fs I of Some (File c' m) \<Rightarrow> c' = c | _ \<Rightarrow> False) \<and>
      (\<forall>p n. p \<noteq> I \<longrightarrow> follow n fs p \<noteq> Some I))"

text \<open>
  What is assumed of the external programs, none of which is part of the sources: each
  leaves the image intact, \<^verbatim>\<open>xorriso\<close> in extraction when the image does not lie in the
  output directory, \<^verbatim>\<open>cpio\<close> when the archive it appends to is not the image, and
  \<^verbatim>\<open>xorriso\<close> in mastering when the output path is not the image.
\<close>

definition tools_spare :: "tools \<Rightarrow> path \<Rightarrow> bytes \<Rightarrow> bool" where
  "tools_spare T I c =
     ((\<forall>src dst fs. \<not> prefix dst I \<longrightarrow> image_intact I c fs \<longrightarrow>
          image_intact I c (snd (xorriso_extract T src dst fs))) \<and>
      (\<forall>cmd fs. image_intact I c fs \<longrightarrow> image_intact I c (os_system T cmd fs)) \<and>
      (\<forall>archive cwd inp fs. archive \<noteq> I \<longrightarrow> image_intact I c fs \<longrightarrow>
          image_intact I c (snd (cpio_append T archive cwd inp fs))) \<and>
      (\<forall>nm out mbr root fs. out \<noteq> I \<longrightarrow> image_intact I c fs \<longrightarrow>
          image_intact I c (snd (xorriso_mkisofs T nm out mbr root fs))))"

section \<open>Example data\<close>

text \<open>
  A small file system for the examples: a disk image of 436 bytes in \<^verbatim>\<open>/srv\<close>, a
  directory for temporary files, a read-only tree in \<^verbatim>\<open>/work\<close>, a read-only archive
  in \<^verbatim>\<open>/boot\<close> and a staging directory.
\<close>

definition demo_image :: bytes where
  "demo_image = replicate 432 (CHR ''m'') @ ''tail''"

definition demo_fs :: fs where
  "demo_fs =
     [([], Dir (oct 7 5 5)),
      ([''tmp''], Dir (oct 7 7 7)),
      ([''srv''], Dir (oct 7 5 5)),
      ([''srv'', ''debian.iso''], File demo_image (oct 6 4 4)),
      ([''work''], Dir (oct 5 5 5)),
      ([''work'', ''md5sum.txt''], File ''stale'' (oct 4 4 4)),
      ([''work'', ''a.txt''], File ''hi'' (oct 4 4 4)),
      ([''work'', ''b''], Dir (oct 5 5 5)),
      ([''work'', ''b'', ''c.txt''], File ''bye'' (oct 4 4 4)),
      ([''boot''], Dir (oct 5 5 5)),
      ([''boot'', ''initrd.gz''], File ''GZcpio'' (oct 4 4 4)),
      ([''stage''], Dir (oct 7 5 5)),
      ([''stage'', ''logo.png''], File ''png'' (oct 6 4 4)),
      ([''stage'', ''mbr.bin''], File (replicate 432 (CHR ''m'')) (oct 6 4 4))]"

text \<open>
  A machine with the image alone; the tree with a symbolic link to one of its files;
  the tree with a file the process may not read; and the tree with a symbolic link to
  a file outside the tree.
\<close>

definition host_fs :: fs where
  "host_fs =
     [([], Dir (oct 7 5 5)),
      ([''tmp''], Dir (oct 7 7 7)),
      ([''srv''], Dir (oct 7 5 5)),
      ([''srv'', ''debian.iso''], File demo_image (oct 6 4 4))]"

definition link_fs :: fs where
  "link_fs = demo_fs @ [([''work'', ''link''], Symlink [''work'', ''a.txt''])]"

definition secret_fs :: fs where
  "secret_fs = demo_fs @ [([''work'', ''secret''], File ''x'' 0)]"

definition outside_fs :: fs where
  "outside_fs = demo_fs @ [([''work'', ''image''], Symlink [''srv'', ''debian.iso''])]"

text \<open>
  Links at which a call may be pointed: \<^verbatim>\<open>/srv/out.bin\<close> leads to \<^verbatim>\<open>/tmp/mbr.bin\<close>, where
  nothing exists; \<^verbatim>\<open>/srv/loop\<close> and \<^verbatim>\<open>/srv/pool\<close> lead to each other; and
  \<^verbatim>\<open>/stage/initrd.gz\<close> leads to the file \<^verbatim>\<open>/stage/logo.png\<close>.
\<close>

definition dangling_fs :: fs where
  "dangling_fs =
     demo_fs @
     [([''srv'', ''out.bin''], Symlink [''tmp'', ''mbr.bin'']),
      ([''srv'', ''loop''], Symlink [''srv'', ''pool'']),
      ([''srv'', ''pool''], Symlink [''srv'', ''loop'']),
      ([''stage'', ''initrd.gz''], Symlink [''stage'', ''logo.png''])]"

text \<open>
  Stand-ins for the outside world in the examples: a toy compression that prefixes
  \<^verbatim>\<open>GZ\<close>, the MD5 digests of the contents the examples hash (any other content gets the
  digest of the empty string), no alphanumeric character beyond Latin-1, and programs
  that exit with the given status; when the status is 0, \<^verbatim>\<open>xorriso\<close> extracts a fixed
  small tree, \<^verbatim>\<open>cpio\<close> appends the name it is given to the archive, and \<^verbatim>\<open>xorriso\<close>
  writes a three-byte image. The shell commands change nothing.
\<close>

definition demo_tools :: "nat \<Rightarrow> tools" where
  "demo_tools status =
     \<lparr> gunzip = (\<lambda>b. if take 2 b = ''GZ'' then Some (drop 2 b) else None),
       gzip_compress = (\<lambda>b. ''GZ'' @ b),
       md5_hexdigest = (\<lambda>b.
          if b = ''hi'' then ''49f68a5c8493ec2c0bf489821c21fc3b''
          else if b = ''bye'' then ''bfa99df33b137bc8fb5f5407d7e58da8''
          else ''d41d8cd98f00b204e9800998ecf8427e''),
       unicode_alnum = (\<lambda>c. False),
       xorriso_extract = (\<lambda>src dst fs.
          (status,
           if status = 0
           then fs @ [(dst @ [''md5sum.txt''], File ''stale'' (oct 4 4 4)),
                      (dst @ [''a.txt''], File ''hi'' (oct 4 4 4)),
                      (dst @ [''install.386''], Dir (oct 5 5 5)),
                      (dst @ [''install.386'', ''gtk''], Dir (oct 5 5 5)),
                      (dst @ [''install.386'', ''gtk'', ''initrd.gz''],
                         File ''GZcpio'' (oct 4 4 4))]
           else fs)),
       xorriso_mkisofs = (\<lambda>nm out mbr root fs.
          (status, if status = 0 then AList.update out (File ''iso'' (oct 6 4 4)) fs else fs)),
       cpio_append = (\<lambda>archive cwd inp fs.
          (status, if status = 0 then fwrite archive (fread fs archive @ inp) fs else fs)),
       os_system = (\<lambda>cmd fs. fs),
       shell = (\<lambda>cmd args fs. (status, fs)) \<rparr>"

text \<open>
  The programs of the examples, for an image whose tree holds a symbolic link to the
  path the image is stored at.
\<close>

definition crafted_tools :: tools where
  "crafted_tools =
     (demo_tools 0)\<lparr>xorriso_extract := (\<lambda>src dst fs.
        (0, fs @ [(dst @ [''md5sum.txt''], File ''stale'' (oct 4 4 4)),
                  (dst @ [''install.386''], Dir (oct 5 5 5)),
                  (dst @ [''install.386'', ''gtk''], Dir (oct 5 5 5)),
                  (dst @ [''install.386'', ''gtk'', ''initrd.gz''],
                     File ''GZcpio'' (oct 4 4 4)),
                  (dst @ [''install.386'', ''gtk'', ''initrd''], Symlink src)]))\<rparr>"

section \<open>Claims about the extraction of the master boot record\<close>

lemmas fs_defs =
  stat_def exists_path_def is_file_def is_dir_def is_symlink_def resolve_def
  resolve_from.simps symloop_max_def follow_numeral open_read_def open_write_def fread_def
  fwrite_def unlink_def chmod_def parent_def name_of_def py_suffix_def rfind_dot_def
  with_suffix_empty_def may_read_def may_write_def oct_def atomic_def

text \<open>
  C8. When the output path of \<^verbatim>\<open>extract_mbr_from_iso\<close> already exists, the call fails
  with \<^verbatim>\<open>FileExistsError\<close> (the specification's AlreadyExists) and the file system,
  hence the existing file and its content, is what it was before the call. This holds
  of both modules; the error of \<^verbatim>\<open>iso/injection.py\<close> names the resolved path.
\<close>

theorem extract_mbr_existing_output:
  "exists_path fs out \<Longrightarrow>
   (\<exists>q. resolve fs out = Inr q \<and>
        extract_mbr_from_iso out src fs = (Some (FileExistsError q), fs)) \<and>
   modiso_extract_mbr_from_iso out src fs = (Some (FileExistsError out), fs)"
  using exists_resolve [of fs out]
  by (auto simp: extract_mbr_from_iso_def modiso_extract_mbr_from_iso_def)

theorem extract_mbr_existing_output_witness:
  "exists_path demo_fs [''srv'', ''debian.iso''] \<and>
   extract_mbr_from_iso [''srv'', ''debian.iso''] [''srv'', ''debian.iso''] demo_fs =
     (Some (FileExistsError [''srv'', ''debian.iso'']), demo_fs) \<and>
   modiso_extract_mbr_from_iso [''srv'', ''debian.iso''] [''srv'', ''debian.iso''] demo_fs =
     (Some (FileExistsError [''srv'', ''debian.iso'']), demo_fs)"
proof -
  have e: "exists_path demo_fs [''srv'', ''debian.iso'']"
    by (simp add: fs_defs demo_fs_def)
  have r: "resolve demo_fs [''srv'', ''debian.iso''] = Inr [''srv'', ''debian.iso'']"
    by (simp add: fs_defs demo_fs_def)
  show ?thesis
    using e extract_mbr_existing_output [OF e, of "[''srv'', ''debian.iso'']"] r by simp
qed

text \<open>
  C1 (as amended). Let the source image be a regular file of at least 432 bytes that
  the process may read and write (it is opened in mode \<^verbatim>\<open>r+b\<close>), with a name that ends
  in \<^verbatim>\<open>.iso\<close> or \<^verbatim>\<open>.img\<close>; and let the output path resolve, through the links at its end
  if there are any, to a path \<open>out'\<close> at which nothing exists and whose directory exists
  and is writable. Then \<^verbatim>\<open>extract_mbr_from_iso\<close> of \<^verbatim>\<open>iso/injection.py\<close> returns normally,
  and the file system afterwards differs from the one before in the file at \<open>out'\<close>
  alone, a new regular file whose content is the first 432 bytes of the image. The
  function of \<^verbatim>\<open>udib/modiso.py\<close>, which leaves the links to the kernel, does the same
  when the kernel follows the output path to \<open>out'\<close>, that is, through at most 40 links.
\<close>

theorem extract_mbr_writes_prefix:
  assumes out: "resolve fs out = Inr out'"
    and absent: "\<not> exists_path fs out'"
    and dir: "map_of fs (parent out') = Some (Dir dm)" "may_write dm"
    and src: "stat fs src = Some (q, File c m)" "may_read m" "may_write m"
    and ext: "py_suffix (name_of src) = ''.iso'' \<or> py_suffix (name_of src) = ''.img''"
    and len: "432 \<le> length c"
  shows "fst (extract_mbr_from_iso out src fs) = None \<and>
         map_of (snd (extract_mbr_from_iso out src fs)) =
           (map_of fs)(out' \<mapsto> File (take 432 c) (oct 6 4 4)) \<and>
         length (take 432 c) = 432 \<and>
         (follow (Suc symloop_max) fs out = Some out' \<longrightarrow>
            modiso_extract_mbr_from_iso out src fs = extract_mbr_from_iso out src fs)"
proof -
  have q: "follow (Suc symloop_max) fs src = Some q" "map_of fs q = Some (File c m)"
    using stat_file [OF src(1)] by simp_all
  have none: "map_of fs out' = None"
    using absent stat_resolved [OF out] by (auto simp: exists_path_def split: option.splits)
  have ne: "q \<noteq> out'" using q(2) none by auto
  have r: "open_read fs src True = Inr q"
    using q src(2,3) by (simp add: open_read_def)
  have w: "follow (Suc symloop_max) fs p = Some out' \<Longrightarrow>
           open_write fs p = Inr (out', AList.update out' (File [] (oct 6 4 4)) fs)" for p
    using none dir by (simp add: open_write_def)
  have rd: "fread (AList.update out' (File [] (oct 6 4 4)) fs) q = c"
    using ne q(2) by (simp add: fread_def update_conv')
  have self: "follow (Suc symloop_max) fs out' = Some out'"
    using none by simp
  have res: "extract_mbr_from_iso out src fs =
          (None, AList.update out' (File (take 432 c) (oct 6 4 4)) fs)"
    using out absent src(1) ext r w [OF self] rd
    by (auto simp: extract_mbr_from_iso_def is_file_def fwrite_def update_conv')
  have "modiso_extract_mbr_from_iso out src fs =
          (None, AList.update out' (File (take 432 c) (oct 6 4 4)) fs)"
    if f: "follow (Suc symloop_max) fs out = Some out'"
  proof -
    have "\<not> exists_path fs out"
      using f none by (simp add: exists_path_def stat_def)
    then show ?thesis
      using src(1) ext r w [OF f] rd
      by (auto simp: modiso_extract_mbr_from_iso_def is_file_def fwrite_def update_conv')
  qed
  with res show ?thesis using len by (simp add: update_conv')
qed

theorem extract_mbr_writes_prefix_witness:
  "resolve dangling_fs [''srv'', ''out.bin''] = Inr [''tmp'', ''mbr.bin''] \<and>
   \<not> exists_path dangling_fs [''tmp'', ''mbr.bin''] \<and>
   follow (Suc symloop_max) dangling_fs [''srv'', ''out.bin''] = Some [''tmp'', ''mbr.bin''] \<and>
   fst (extract_mbr_from_iso [''srv'', ''out.bin''] [''srv'', ''debian.iso''] dangling_fs)
     = None \<and>
   map_of (snd (extract_mbr_from_iso [''srv'', ''out.bin''] [''srv'', ''debian.iso'']
                  dangling_fs)) [''tmp'', ''mbr.bin'']
     = Some (File (replicate 432 (CHR ''m'')) (oct 6 4 4)) \<and>
   modiso_extract_mbr_from_iso [''srv'', ''out.bin''] [''srv'', ''debian.iso''] dangling_fs =
     extract_mbr_from_iso [''srv'', ''out.bin''] [''srv'', ''debian.iso''] dangling_fs"
proof -
  have 1: "resolve dangling_fs [''srv'', ''out.bin''] = Inr [''tmp'', ''mbr.bin'']"
    by (simp add: fs_defs dangling_fs_def demo_fs_def)
  have 2: "\<not> exists_path dangling_fs [''tmp'', ''mbr.bin'']"
    by (simp add: fs_defs dangling_fs_def demo_fs_def)
  have 3: "map_of dangling_fs (parent [''tmp'', ''mbr.bin'']) = Some (Dir (oct 7 7 7))"
    by (simp add: dangling_fs_def demo_fs_def parent_def)
  have 4: "may_write (oct 7 7 7)" "may_read (oct 6 4 4)" "may_write (oct 6 4 4)"
    by (simp_all add: may_write_def may_read_def oct_def)
  have 5: "stat dangling_fs [''srv'', ''debian.iso''] =
      Some ([''srv'', ''debian.iso''], File demo_image (oct 6 4 4))"
    by (simp add: stat_def dangling_fs_def demo_fs_def symloop_max_def follow_numeral)
  have 6: "py_suffix (name_of [''srv'', ''debian.iso'']) = ''.iso''"
    by (simp add: py_suffix_def name_of_def rfind_dot_def)
  have 7: "432 \<le> length demo_image"
    by (simp add: demo_image_def)
  have 8: "follow (Suc symloop_max) dangling_fs [''srv'', ''out.bin'']
             = Some [''tmp'', ''mbr.bin'']"
    by (simp add: dangling_fs_def demo_fs_def symloop_max_def follow_numeral)
  show ?thesis
    using extract_mbr_writes_prefix [OF 1 2 3 4(1) 5 4(2) 4(3) _ 7] 1 2 6 8
    by (simp add: demo_image_def)
qed

text \<open>
  C1 as stated fails: the image exists, is named \<^verbatim>\<open>debian.iso\<close> and holds 436 bytes,
  nothing exists at \<^verbatim>\<open>/nodir/mbr.bin\<close>, and the call raises \<^verbatim>\<open>FileNotFoundError\<close> from
  \<^verbatim>\<open>open\<close> without creating the output file, because \<^verbatim>\<open>/nodir\<close> does not exist.
\<close>

theorem extract_mbr_missing_directory:
  "is_file demo_fs [''srv'', ''debian.iso''] \<and>
   py_suffix (name_of [''srv'', ''debian.iso'']) = ''.iso'' \<and>
   432 \<le> length (fread demo_fs [''srv'', ''debian.iso'']) \<and>
   \<not> exists_path demo_fs [''nodir'', ''mbr.bin''] \<and>
   extract_mbr_from_iso [''nodir'', ''mbr.bin''] [''srv'', ''debian.iso''] demo_fs =
     (Some (FileNotFoundError [''nodir'', ''mbr.bin'']), demo_fs)"
  by (simp add: extract_mbr_from_iso_def fs_defs demo_fs_def demo_image_def)

text \<open>
  The same call on an image the process may only read: \<^verbatim>\<open>open(..., mode="r+b")\<close> raises
  \<^verbatim>\<open>PermissionError\<close>.
\<close>

lemma extract_mbr_read_only_image:
  "extract_mbr_from_iso [''srv'', ''mbr.bin''] [''srv'', ''debian.iso'']
     [([], Dir (oct 7 5 5)), ([''srv''], Dir (oct 7 5 5)),
      ([''srv'', ''debian.iso''], File demo_image (oct 4 4 4))] =
   (Some (PermissionError [''srv'', ''debian.iso'']),
     [([], Dir (oct 7 5 5)), ([''srv''], Dir (oct 7 5 5)),
      ([''srv'', ''debian.iso''], File demo_image (oct 4 4 4))])"
  by (simp add: extract_mbr_from_iso_def fs_defs)

text \<open>
  Pointed at links that lead to each other, the call fails with the \<^verbatim>\<open>RuntimeError\<close> of
  \<^verbatim>\<open>Path.resolve\<close> in \<^verbatim>\<open>iso/injection.py\<close>, and with the \<^verbatim>\<open>OSError\<close> of \<^verbatim>\<open>open\<close> in
  \<^verbatim>\<open>udib/modiso.py\<close>.
\<close>

lemma extract_mbr_link_loop:
  "extract_mbr_from_iso [''srv'', ''loop''] [''srv'', ''debian.iso''] dangling_fs =
     (Some (RuntimeError (SymlinkLoop [''srv'', ''loop''])), dangling_fs) \<and>
   modiso_extract_mbr_from_iso [''srv'', ''loop''] [''srv'', ''debian.iso''] dangling_fs =
     (Some (OSError [''srv'', ''loop'']), dangling_fs)"
  by (simp add: extract_mbr_from_iso_def modiso_extract_mbr_from_iso_def fs_defs
      dangling_fs_def demo_fs_def demo_image_def)

section \<open>Claims about the initrd archive\<close>

text \<open>
  C6 (as amended). When the name of the archive path is not exactly \<^verbatim>\<open>initrd.gz\<close>,
  \<^verbatim>\<open>append_file_contents_to_initrd_archive\<close> fails and leaves the file system as it was:
  no permission is changed, nothing is decompressed, nothing is deleted. The exception
  is \<^verbatim>\<open>AssertionError\<close> (the specification's InvalidFormat) when the path is an existing
  regular file, and \<^verbatim>\<open>FileNotFoundError\<close> when it is not, since the existence check
  comes first. In \<^verbatim>\<open>iso/injection.py\<close> the path is first resolved: the name is the name
  of the resolved path \<open>a\<close>, and a path whose links form a loop fails before that, with
  the \<^verbatim>\<open>RuntimeError\<close> \<open>e\<close> of \<^verbatim>\<open>Path.resolve\<close>, the file system again as it was. In
  \<^verbatim>\<open>udib/modiso.py\<close> the name is the name of the path as given.
\<close>

theorem append_rejects_other_names:
  "(resolve fs archive = Inr a \<longrightarrow> name_of a \<noteq> ''initrd.gz'' \<longrightarrow>
      append_file_contents_to_initrd_archive T archive base_dir rel fs =
        (Some (if is_file fs a then AssertionError (name_of a) else FileNotFoundError a), fs)) \<and>
   (resolve fs archive = Inl e \<longrightarrow>
      append_file_contents_to_initrd_archive T archive base_dir rel fs = (Some e, fs)) \<and>
   (name_of archive \<noteq> ''initrd.gz'' \<longrightarrow>
      modiso_append_file_contents_to_initrd_archive T archive inp fs =
        (Some (if is_file fs archive then AssertionError (name_of archive)
               else FileNotFoundError archive), fs))"
  by (simp add: append_file_contents_to_initrd_archive_def
      modiso_append_file_contents_to_initrd_archive_def Let_def)

theorem append_rejects_other_names_witness:
  "resolve dangling_fs [''stage'', ''initrd.gz''] = Inr [''stage'', ''logo.png''] \<and>
   name_of [''stage'', ''logo.png''] \<noteq> ''initrd.gz'' \<and>
   append_file_contents_to_initrd_archive (demo_tools 0) [''stage'', ''initrd.gz''] [''stage'']
     ''logo.png'' dangling_fs = (Some (AssertionError ''logo.png''), dangling_fs) \<and>
   resolve dangling_fs [''srv'', ''loop''] = Inl (RuntimeError (SymlinkLoop [''srv'', ''loop''])) \<and>
   append_file_contents_to_initrd_archive (demo_tools 0) [''srv'', ''loop''] [''stage'']
     ''logo.png'' dangling_fs = (Some (RuntimeError (SymlinkLoop [''srv'', ''loop''])), dangling_fs) \<and>
   name_of [''work'', ''a.txt''] \<noteq> ''initrd.gz'' \<and>
   modiso_append_file_contents_to_initrd_archive (demo_tools 0) [''work'', ''a.txt'']
     [''stage'', ''logo.png''] dangling_fs = (Some (AssertionError ''a.txt''), dangling_fs)"
proof -
  have r: "resolve dangling_fs [''stage'', ''initrd.gz''] = Inr [''stage'', ''logo.png'']"
    by (simp add: fs_defs dangling_fs_def demo_fs_def)
  have l: "resolve dangling_fs [''srv'', ''loop'']
             = Inl (RuntimeError (SymlinkLoop [''srv'', ''loop'']))"
    by (simp add: fs_defs dangling_fs_def demo_fs_def)
  have n: "name_of [''stage'', ''logo.png''] \<noteq> ''initrd.gz''"
    "name_of [''work'', ''a.txt''] \<noteq> ''initrd.gz''"
    by (simp_all add: name_of_def)
  have f: "is_file dangling_fs [''stage'', ''logo.png'']" "is_file dangling_fs [''work'', ''a.txt'']"
    by (simp_all add: fs_defs dangling_fs_def demo_fs_def)
  show ?thesis
    using append_rejects_other_names [where fs = dangling_fs
        and archive = "[''stage'', ''initrd.gz'']" and a = "[''stage'', ''logo.png'']"
        and T = "demo_tools 0" and base_dir = "[''stage'']" and rel = "''logo.png''"]
      append_rejects_other_names [where fs = dangling_fs
        and archive = "[''srv'', ''loop'']" and T = "demo_tools 0"
        and base_dir = "[''stage'']" and rel = "''logo.png''"
        and e = "RuntimeError (SymlinkLoop [''srv'', ''loop''])"]
      append_rejects_other_names [where fs = dangling_fs
        and archive = "[''work'', ''a.txt'']" and T = "demo_tools 0"
        and inp = "[''stage'', ''logo.png'']"]
      r l n f
    by (simp add: name_of_def)
qed

text \<open>
  C6 as stated fails: \<^verbatim>\<open>/boot/initrd.img\<close> is not named \<^verbatim>\<open>initrd.gz\<close> and the call
  fails with \<^verbatim>\<open>FileNotFoundError\<close> (NotFound), not with \<^verbatim>\<open>AssertionError\<close>
  (InvalidFormat), because no such file exists.
\<close>

theorem append_missing_archive_not_found:
  "name_of [''boot'', ''initrd.img''] \<noteq> ''initrd.gz'' \<and>
   append_file_contents_to_initrd_archive (demo_tools 0) [''boot'', ''initrd.img'']
     [''stage''] ''logo.png'' demo_fs =
   (Some (FileNotFoundError [''boot'', ''initrd.img'']), demo_fs)"
  by (simp add: append_file_contents_to_initrd_archive_def fs_defs demo_fs_def)

text \<open>
  The two modules differ on a link: \<^verbatim>\<open>/stage/initrd.gz\<close> is a link to the file
  \<^verbatim>\<open>/stage/logo.png\<close>. \<^verbatim>\<open>iso/injection.py\<close> tests the name \<^verbatim>\<open>logo.png\<close> and refuses;
  \<^verbatim>\<open>udib/modiso.py\<close> tests the name \<^verbatim>\<open>initrd.gz\<close> and goes on, until the file proves not
  to be a gzip stream, when the file \<^verbatim>\<open>/stage/initrd\<close> has been created.
\<close>

lemma modiso_append_link_named_initrd:
  "modiso_append_file_contents_to_initrd_archive (demo_tools 0) [''stage'', ''initrd.gz'']
     [''stage'', ''logo.png''] dangling_fs =
   (Some (BadGzipFile [''stage'', ''initrd.gz'']),
    dangling_fs @ [([''stage'', ''initrd''], File [] (oct 6 4 4))])"
  by (simp add: modiso_append_file_contents_to_initrd_archive_def gunzip_file_def fs_defs
      dangling_fs_def demo_fs_def demo_tools_def)

text \<open>
  The exit status of \<^verbatim>\<open>cpio\<close> has no influence on the call: a \<^verbatim>\<open>cpio\<close> that does the same
  to the file system and exits with any other status gives the same outcome.
\<close>

lemma append_ignores_cpio_status:
  "append_file_contents_to_initrd_archive
     (T\<lparr>cpio_append := \<lambda>a d i s. (status, snd (cpio_append T a d i s))\<rparr>) archive base_dir rel fs =
   append_file_contents_to_initrd_archive T archive base_dir rel fs"
proof -
  define T' where "T' = T\<lparr>cpio_append := \<lambda>a d i s. (status, snd (cpio_append T a d i s))\<rparr>"
  have a: "popen_cpio T' = popen_cpio T"
    by (auto simp: T'_def popen_cpio_def fun_eq_iff split: prod.splits sum.splits)
  have b: "gunzip_file T' = gunzip_file T"
    by (simp add: T'_def gunzip_file_def fun_eq_iff split: sum.splits prod.splits)
  have c: "gzip_file T' = gzip_file T"
    by (simp add: T'_def gzip_file_def fun_eq_iff split: sum.splits prod.splits)
  have "append_file_contents_to_initrd_archive T' archive base_dir rel fs =
        append_file_contents_to_initrd_archive T archive base_dir rel fs"
    by (simp add: append_file_contents_to_initrd_archive_def Let_def a b c split: sum.splits)
  then show ?thesis by (simp add: T'_def)
qed

text \<open>
  C3 fails on the code. Here \<^verbatim>\<open>cpio\<close> exits with status 1 and appends nothing, and
  \<^verbatim>\<open>append_file_contents_to_initrd_archive\<close> returns normally, the archive repacked
  without the file and read-only again.
\<close>

theorem append_cpio_failure_unnoticed:
  "fst (cpio_append (demo_tools 1) [''boot'', ''initrd''] [''stage''] ''logo.png'' demo_fs) = 1 \<and>
   fst (append_file_contents_to_initrd_archive (demo_tools 1) [''boot'', ''initrd.gz'']
          [''stage''] ''logo.png'' demo_fs) = None \<and>
   map_of (snd (append_file_contents_to_initrd_archive (demo_tools 1) [''boot'', ''initrd.gz'']
          [''stage''] ''logo.png'' demo_fs)) [''boot'', ''initrd.gz''] =
     Some (File ''GZcpio'' (oct 4 4 4))"
  by (simp add: append_file_contents_to_initrd_archive_def gunzip_file_def gzip_file_def
      popen_cpio_def fs_defs demo_fs_def demo_tools_def)

section \<open>Claims about repacking\<close>

lemma regex_search_first:
  assumes "s = pre @ c # post" "\<forall>x\<in>set pre. \<not> invalid_char T x" "invalid_char T c"
  shows "regex_search T s = Some c"
  using assms unfolding regex_search_def
  by (induction pre arbitrary: s) auto

text \<open>On ASCII the class of the code and the class of the specification agree.\<close>

lemma invalid_char_ascii:
  "c < 128 \<Longrightarrow> invalid_char T c = (\<not> spec_name_char c)"
  by (auto simp: invalid_char_def isalnum_def ascii_alnum_def spec_name_char_def)

text \<open>
  C4 (as amended). When the output path does not exist, the MBR file exists and the
  tree root is a directory, and the file system name contains a character that
  \<^verbatim>\<open>[^\w .-]\<close> matches (a character that is neither alphanumeric in the sense of Unicode,
  nor an underscore, a space, a period or a hyphen), then \<^verbatim>\<open>repack_iso\<close> fails with the
  \<^verbatim>\<open>RuntimeError\<close> that names the first such character (the specification's
  InvalidArgument), and the file system is unchanged: no output file is created. In
  \<^verbatim>\<open>iso/injection.py\<close> the three conditions are tested on the resolved paths, and the
  three paths must resolve: none ends in links that form a loop. In \<^verbatim>\<open>udib/modiso.py\<close>
  they are tested on the paths as given.
\<close>

theorem repack_rejects_invalid_name:
  assumes "nm = pre @ c # post" "\<forall>x\<in>set pre. \<not> invalid_char T x" "invalid_char T c"
  shows "(resolve fs out = Inr out' \<longrightarrow> resolve fs mbr = Inr mbr' \<longrightarrow>
          resolve fs root = Inr root' \<longrightarrow>
          \<not> exists_path fs out' \<longrightarrow> is_file fs mbr' \<longrightarrow> is_dir fs root' \<longrightarrow>
            repack_iso T out mbr root nm fs = (Some (RuntimeError (InvalidChar c)), fs)) \<and>
         (\<not> exists_path fs out \<longrightarrow> is_file fs mbr \<longrightarrow> is_dir fs root \<longrightarrow>
            modiso_repack_iso T out mbr root nm fs = (Some (RuntimeError (InvalidChar c)), fs))"
  using regex_search_first [OF assms]
  by (simp add: repack_iso_def modiso_repack_iso_def)

theorem repack_rejects_invalid_name_witness:
  "repack_iso (demo_tools 0) [''srv'', ''new.iso''] [''stage'', ''mbr.bin''] [''work'']
     [68, 101, 98, 47, 49] demo_fs = (Some (RuntimeError (InvalidChar 47)), demo_fs) \<and>
   modiso_repack_iso (demo_tools 0) [''srv'', ''new.iso''] [''stage'', ''mbr.bin''] [''work'']
     [68, 101, 98, 47, 49] demo_fs = (Some (RuntimeError (InvalidChar 47)), demo_fs)"
proof -
  have r: "resolve demo_fs [''srv'', ''new.iso''] = Inr [''srv'', ''new.iso'']"
    "resolve demo_fs [''stage'', ''mbr.bin''] = Inr [''stage'', ''mbr.bin'']"
    "resolve demo_fs [''work''] = Inr [''work'']"
    by (simp_all add: fs_defs demo_fs_def)
  have c: "\<not> exists_path demo_fs [''srv'', ''new.iso'']"
    "is_file demo_fs [''stage'', ''mbr.bin'']" "is_dir demo_fs [''work'']"
    by (simp_all add: fs_defs demo_fs_def)
  have n: "[68, 101, 98, 47, 49] = [68, 101, 98] @ 47 # [49::nat]"
    by simp
  have p: "\<forall>x\<in>set [68, 101, 98]. \<not> invalid_char (demo_tools 0) x"
    by (simp add: invalid_char_def isalnum_def ascii_alnum_def)
  have i: "invalid_char (demo_tools 0) 47"
    by (simp add: invalid_char_def isalnum_def ascii_alnum_def)
  show ?thesis
    using repack_rejects_invalid_name [OF n p i, of demo_fs "[''srv'', ''new.iso'']"
        "[''srv'', ''new.iso'']" "[''stage'', ''mbr.bin'']" "[''stage'', ''mbr.bin'']"
        "[''work'']" "[''work'']"] r c
    by simp
qed

text \<open>
  C4 as stated fails: the name is the single character U+00E9 (a Latin small letter e
  with acute), which is outside \<^verbatim>\<open>[A-Za-z0-9 ._-]\<close>; \<^verbatim>\<open>\w\<close> matches it, the name is
  accepted, \<^verbatim>\<open>xorriso\<close> runs and the output file is created.
\<close>

theorem repack_accepts_accented_letter:
  "\<not> spec_name_char 233 \<and>
   repack_iso (demo_tools 0) [''srv'', ''new.iso''] [''stage'', ''mbr.bin''] [''work''] [233]
     demo_fs =
   (None, demo_fs @ [([''srv'', ''new.iso''], File ''iso'' (oct 6 4 4))])"
  by (simp add: repack_iso_def regex_search_def invalid_char_def isalnum_def latin1_alnum_def
      spec_name_char_def fs_defs demo_fs_def demo_tools_def)

text \<open>
  Pointed at links that lead to each other, \<^verbatim>\<open>repack_iso\<close> of \<^verbatim>\<open>iso/injection.py\<close> fails
  with the \<^verbatim>\<open>RuntimeError\<close> of \<^verbatim>\<open>Path.resolve\<close>, whatever the name.
\<close>

lemma repack_link_loop:
  "repack_iso (demo_tools 0) [''srv'', ''loop''] [''stage'', ''mbr.bin''] [''work'']
     [68, 101, 98, 47, 49] dangling_fs =
   (Some (RuntimeError (SymlinkLoop [''srv'', ''loop''])), dangling_fs)"
  by (simp add: repack_iso_def fs_defs dangling_fs_def demo_fs_def)

section \<open>Claims about the checksum manifest\<close>

lemma is_file_resolve:
  assumes "is_file fs x"
  shows "\<exists>q c m. resolve fs x = Inr q \<and> map_of fs q = Some (File c m)"
proof -
  from assms obtain q c m where s: "stat fs x = Some (q, File c m)"
    by (auto simp: is_file_def split: option.splits prod.splits node.splits)
  from stat_resolve [OF s] stat_file [OF s] show ?thesis by blast
qed

lemma is_dir_resolved:
  assumes "resolve fs x = Inr r" "is_dir fs r"
  shows "\<exists>m. map_of fs r = Some (Dir m)"
proof -
  from stat_resolved [OF assms(1)] assms(2) obtain n
    where n: "map_of fs r = Some n" "stat fs r = Some (r, n)"
    by (cases "map_of fs r") (auto simp: is_dir_def)
  with assms(2) show ?thesis by (cases n) (auto simp: is_dir_def)
qed

lemma gather_member:
  "gather f xs = Inr ys \<Longrightarrow> p \<in> set ys \<Longrightarrow> \<exists>x\<in>set xs. \<exists>zs. f x = Inr zs \<and> p \<in> set zs"
  by (induction xs arbitrary: ys) (auto split: sum.splits)

text \<open>Every path the enumeration returns is a regular file of the file system.\<close>

lemma find_all_regular:
  "find_all_files_under fs d = Inr ps \<Longrightarrow> p \<in> set ps \<Longrightarrow> \<exists>c m. map_of fs p = Some (File c m)"
proof (induction fs d arbitrary: ps rule: find_all_files_under.induct)
  case (1 fs dir_arg)
  from "1.prems"(1) obtain parent_dir subpaths where
    rs: "resolve fs dir_arg = Inr parent_dir"
    and d: "is_dir fs parent_dir"
    and it: "iterdir fs parent_dir = Inr subpaths"
    and g: "gather (\<lambda>subpath.
                  if is_file fs subpath
                    then (case resolve fs subpath of Inl e \<Rightarrow> Inl e | Inr file \<Rightarrow> Inr [file])
                  else if \<not> is_symlink fs subpath \<and> is_dir fs subpath
                    then find_all_files_under fs subpath
                  else Inr []) subpaths = Inr ps"
    by (subst (asm) find_all_files_under.simps) (auto split: if_splits sum.splits)
  from gather_member [OF g "1.prems"(2)] obtain x zs where
    x: "x \<in> set subpaths" "p \<in> set zs"
      "(if is_file fs x
          then (case resolve fs x of Inl e \<Rightarrow> Inl e | Inr file \<Rightarrow> Inr [file])
        else if \<not> is_symlink fs x \<and> is_dir fs x then find_all_files_under fs x
        else Inr []) = Inr zs"
    by blast
  show ?case
  proof (cases "is_file fs x")
    case True
    with x show ?thesis using is_file_resolve [OF True] by auto
  next
    case False
    with x have r: "\<not> is_symlink fs x \<and> is_dir fs x" "find_all_files_under fs x = Inr zs"
      by (auto split: if_splits)
    show ?thesis
      using "1.IH" [OF rs _ it x(1) False r(1) r(2) x(2)] d by simp
  qed
qed

lemma chmod_Inr:
  assumes "chmod p m fs = Inr fs'"
  shows "\<exists>q. follow (Suc symloop_max) fs p = Some q \<and>
           ((\<exists>c m0. map_of fs q = Some (File c m0) \<and> fs' = AList.update q (File c m) fs) \<or>
            (\<exists>m0. map_of fs q = Some (Dir m0) \<and> fs' = AList.update q (Dir m) fs))"
  using assms
  by (auto simp: chmod_def stat_def split: option.splits prod.splits node.splits)

lemma chmod_keeps_dir:
  assumes "chmod p m fs = Inr fs'" "map_of fs d = Some (Dir m0)"
  shows "\<exists>m1. map_of fs' d = Some (Dir m1)"
  using chmod_Inr [OF assms(1)] assms(2)
  by (auto simp: update_conv')

lemma stat_physical:
  assumes "map_of fs p = Some n" "\<not> is_symlink fs p"
  shows "stat fs p = Some (p, n)"
  using assms(1) follow_not_symlink [OF assms(2), of symloop_max]
  by (simp add: stat_def del: follow.simps)

lemma chmod_dir:
  "map_of fs d = Some (Dir m0) \<Longrightarrow> chmod d m fs = Inr (AList.update d (Dir m) fs)"
  by (simp add: chmod_def stat_physical is_symlink_def)

lemma chmod_file:
  "map_of fs p = Some (File c m0) \<Longrightarrow> chmod p m fs = Inr (AList.update p (File c m) fs)"
  by (simp add: chmod_def stat_physical is_symlink_def)

lemma unlink_Inr:
  assumes "unlink p fs = Inr fs'"
  shows "fs' = AList.delete p fs"
  using assms
  by (auto simp: unlink_def split: option.splits node.splits if_splits)

lemma open_write_absent:
  assumes "open_write fs p = Inr (h, fs')" "map_of fs p = None"
  shows "h = p \<and> fs' = AList.update p (File [] (oct 6 4 4)) fs"
proof -
  have "follow (Suc symloop_max) fs p = Some p"
    using assms(2) by simp
  with assms show ?thesis
    by (auto simp: open_write_def split: option.splits node.splits if_splits)
qed

text \<open>
  The steps of a call that returns normally: \<open>fs1\<close> is the file system after the old
  manifest has been removed, in which the files are enumerated; the manifest is then
  created and filled, and the permissions are restored.
\<close>

lemma regenerate_steps:
  assumes R: "regenerate_iso_md5sums_file T root fs = (None, fs')"
  shows "\<exists>r fs1 subpaths body.
           resolve fs root = Inr r \<and>
           map_of fs1 (r @ [''md5sum.txt'']) = None \<and>
           map_of fs1 r = Some (Dir (oct 7 5 5)) \<and>
           find_all_files_under fs1 r = Inr subpaths \<and>
           write_md5sums T (AList.update (r @ [''md5sum.txt'']) (File [] (oct 6 4 4)) fs1)
              r subpaths = (None, body) \<and>
           fs' = AList.update r (Dir (oct 5 5 5))
                   (AList.update (r @ [''md5sum.txt'']) (File body (oct 4 4 4)) fs1)"
proof -
  from R obtain r where rs: "resolve fs root = Inr r"
    by (cases "resolve fs root") (auto simp: regenerate_iso_md5sums_file_def)
  define mp where "mp = r @ [''md5sum.txt'']"
  have pm: "parent mp = r" by (simp add: mp_def parent_def)
  have ne: "r \<noteq> mp" by (simp add: mp_def)
  have d0: "is_dir fs r"
    using R rs by (auto simp: regenerate_iso_md5sums_file_def Let_def split: if_splits)
  then obtain m0 where r0: "map_of fs r = Some (Dir m0)"
    using is_dir_resolved [OF rs] by blast
  from R rs d0 have B: "block
          [atomic (chmod mp (oct 6 4 4)),
           atomic (chmod r (oct 7 5 5)),
           atomic (unlink mp),
           write_md5sum_file T r mp,
           atomic (chmod mp (oct 4 4 4)),
           atomic (chmod r (oct 5 5 5))] fs = (None, fs')"
    by (simp add: regenerate_iso_md5sums_file_def Let_def mp_def [symmetric] pm
        del: block.simps)
  from B obtain fsa where a: "chmod mp (oct 6 4 4) fs = Inr fsa"
    and B1: "block [atomic (chmod r (oct 7 5 5)), atomic (unlink mp), write_md5sum_file T r mp,
           atomic (chmod mp (oct 4 4 4)), atomic (chmod r (oct 5 5 5))] fsa = (None, fs')"
    by (auto simp: atomic_def split: sum.splits)
  from B1 obtain fsb where b: "chmod r (oct 7 5 5) fsa = Inr fsb"
    and B2: "block [atomic (unlink mp), write_md5sum_file T r mp,
           atomic (chmod mp (oct 4 4 4)), atomic (chmod r (oct 5 5 5))] fsb = (None, fs')"
    by (auto simp: atomic_def split: sum.splits)
  from B2 obtain fs1 where c: "unlink mp fsb = Inr fs1"
    and B3: "block [write_md5sum_file T r mp,
           atomic (chmod mp (oct 4 4 4)), atomic (chmod r (oct 5 5 5))] fs1 = (None, fs')"
    by (auto simp: atomic_def split: sum.splits)
  from B3 obtain fs3 where w: "write_md5sum_file T r mp fs1 = (None, fs3)"
    and B4: "block [atomic (chmod mp (oct 4 4 4)), atomic (chmod r (oct 5 5 5))] fs3 = (None, fs')"
    by (auto split: prod.splits option.splits)
  from B4 obtain fs4 where e: "chmod mp (oct 4 4 4) fs3 = Inr fs4"
    and f: "chmod r (oct 5 5 5) fs4 = Inr fs'"
    by (auto simp: atomic_def split: sum.splits)
  obtain ma where ra: "map_of fsa r = Some (Dir ma)"
    using chmod_keeps_dir [OF a r0] by blast
  have fsb: "fsb = AList.update r (Dir (oct 7 5 5)) fsa"
    using b chmod_dir [OF ra] by simp
  have fs1: "fs1 = AList.delete mp fsb"
    using c by (rule unlink_Inr)
  have m1: "map_of fs1 mp = None"
    by (simp add: fs1 delete_conv')
  have r1: "map_of fs1 r = Some (Dir (oct 7 5 5))"
    using ne by (simp add: fs1 fsb delete_conv' update_conv')
  from w obtain subpaths h fs2 body where
    fa: "find_all_files_under fs1 r = Inr subpaths"
    and ow: "open_write fs1 mp = Inr (h, fs2)"
    and wm: "write_md5sums T fs2 r subpaths = (None, body)"
    and fs3: "fs3 = fwrite h body fs2"
    by (auto simp: write_md5sum_file_def split: sum.splits prod.splits)
  have h: "h = mp" and fs2: "fs2 = AList.update mp (File [] (oct 6 4 4)) fs1"
    using open_write_absent [OF ow m1] by simp_all
  have fs3': "fs3 = AList.update mp (File body (oct 6 4 4)) fs1"
    by (simp add: fs3 h fs2 fwrite_def update_conv')
  have fs4: "fs4 = AList.update mp (File body (oct 4 4 4)) fs1"
    using e chmod_file [of fs3 mp body "oct 6 4 4" "oct 4 4 4"]
    by (simp add: fs3' update_conv')
  have r4: "map_of fs4 r = Some (Dir (oct 7 5 5))"
    using ne r1 by (simp add: fs4 update_conv')
  have fs': "fs' = AList.update r (Dir (oct 5 5 5)) fs4"
    using f chmod_dir [OF r4] by simp
  from rs m1 r1 fa wm fs2 fs' fs4 show ?thesis
    unfolding mp_def by blast
qed

lemma open_read_physical:
  assumes "map_of fs p = Some (File c m)" "open_read fs p rw = Inr h"
  shows "h = p"
proof -
  have "follow (Suc symloop_max) fs p = Some p"
    using assms(1) by simp
  with assms show ?thesis
    by (auto simp: open_read_def split: if_splits)
qed

lemma write_md5sums_success:
  assumes "write_md5sums T fs r ps = (None, body)"
    and "\<forall>p\<in>set ps. \<exists>c m. map_of fs p = Some (File c m)"
  shows "body = concat (map (\<lambda>p. manifest_line (md5_hexdigest T (fread fs p))
                         (str_of_relpath (drop (length r) p))) ps) \<and>
         (\<forall>p\<in>set ps. prefix r p)"
  using assms
proof (induction ps arbitrary: body)
  case Nil
  then show ?case by simp
next
  case (Cons p ps)
  from Cons.prems(2) obtain c m where p: "map_of fs p = Some (File c m)" by auto
  from Cons.prems(1) obtain h rel rest where
    h: "open_read fs p False = Inr h"
    and rel: "relative_to r p = Some rel"
    and rest: "write_md5sums T fs r ps = (None, rest)"
    and body: "body = manifest_line (md5_hexdigest T (fread fs h)) (str_of_relpath rel) @ rest"
    by (auto split: sum.splits option.splits prod.splits)
  have hp: "h = p" using open_read_physical [OF p h] .
  have pre: "prefix r p" "rel = drop (length r) p"
    using rel by (auto simp: relative_to_def split: if_splits)
  from Cons.IH [OF rest] Cons.prems(2) hp pre body show ?case by simp
qed

text \<open>Only the path \<^verbatim>\<open>md5sum.txt\<close> is written \<^verbatim>\<open>md5sum.txt\<close>.\<close>

lemma str_of_relpath_md5sum:
  assumes "str_of_relpath rel = ''md5sum.txt''"
  shows "rel = [''md5sum.txt'']"
proof (cases rel)
  case Nil
  with assms show ?thesis by (simp add: str_of_relpath_def)
next
  case (Cons x xs)
  show ?thesis
  proof (cases xs)
    case Nil
    with Cons assms show ?thesis by (simp add: str_of_relpath_def str_of_path_def)
  next
    case (Cons y ys)
    with \<open>rel = x # xs\<close> have "CHR ''/'' \<in> set (str_of_relpath rel)"
      by (simp add: str_of_relpath_def str_of_path_def)
    with assms show ?thesis by simp
  qed
qed

lemmas find_demo =
  find_all_files_under.simps [of _ "[''work'']"]
  find_all_files_under.simps [of _ "[''work'', ''b'']"]

lemmas regen_defs =
  regenerate_iso_md5sums_file_def write_md5sum_file_def find_demo iterdir_def
  relative_to_def str_of_relpath_def str_of_path_def manifest_line_def Let_def

lemma regenerate_demo:
  "regenerate_iso_md5sums_file (demo_tools 0) [''work''] demo_fs =
     (None, snd (regenerate_iso_md5sums_file (demo_tools 0) [''work''] demo_fs))"
proof -
  have "fst (regenerate_iso_md5sums_file (demo_tools 0) [''work''] demo_fs) = None"
    by (simp add: regen_defs fs_defs demo_fs_def demo_tools_def)
  then show ?thesis by (simp add: prod_eq_iff)
qed

lemma resolve_demo_work: "resolve demo_fs [''work''] = Inr [''work'']"
  by (simp add: fs_defs demo_fs_def)

text \<open>
  C5 fails on the code. The tree holds the regular files \<^verbatim>\<open>a.txt\<close> and \<^verbatim>\<open>b/c.txt\<close> and the
  symbolic link \<^verbatim>\<open>link\<close> to \<^verbatim>\<open>a.txt\<close>. \<^verbatim>\<open>Path.is_file\<close> follows the link, so the link is
  collected under the path it resolves to, and the manifest has three lines, two of them
  for \<^verbatim>\<open>a.txt\<close>.
\<close>

theorem regenerate_lists_link_target:
  "is_symlink link_fs [''work'', ''link''] \<and>
   fst (regenerate_iso_md5sums_file (demo_tools 0) [''work''] link_fs) = None \<and>
   fread (snd (regenerate_iso_md5sums_file (demo_tools 0) [''work''] link_fs))
     [''work'', ''md5sum.txt''] =
   ''49f68a5c8493ec2c0bf489821c21fc3b  a.txt'' @ [CHR 0x0A] @
   ''bfa99df33b137bc8fb5f5407d7e58da8  b/c.txt'' @ [CHR 0x0A] @
   ''49f68a5c8493ec2c0bf489821c21fc3b  a.txt'' @ [CHR 0x0A]"
  by (simp add: regen_defs fs_defs demo_fs_def demo_tools_def link_fs_def)

text \<open>
  C7 (as amended). Every call of \<^verbatim>\<open>regenerate_iso_md5sums_file\<close> that returns normally
  leaves the manifest \<^verbatim>\<open>md5sum.txt\<close> with the permission bits 0444 and its directory, the
  tree root, with the bits 0555; \<open>r\<close> is the resolved path of the tree root.
\<close>

theorem regenerate_restores_permissions:
  assumes "regenerate_iso_md5sums_file T root fs = (None, fs')"
  shows "\<exists>r. resolve fs root = Inr r \<and>
           map_of fs' (r @ [''md5sum.txt'']) =
             Some (File (fread fs' (r @ [''md5sum.txt''])) (oct 4 4 4)) \<and>
           map_of fs' (parent (r @ [''md5sum.txt''])) = Some (Dir (oct 5 5 5))"
proof -
  from regenerate_steps [OF assms] obtain r fs1 body where
    "resolve fs root = Inr r"
    "fs' = AList.update r (Dir (oct 5 5 5))
             (AList.update (r @ [''md5sum.txt'']) (File body (oct 4 4 4)) fs1)"
    by blast
  then show ?thesis by (simp add: fread_def parent_def update_conv')
qed

theorem regenerate_restores_permissions_witness:
  "map_of (snd (regenerate_iso_md5sums_file (demo_tools 0) [''work''] demo_fs))
     [''work'', ''md5sum.txt''] =
     Some (File (fread (snd (regenerate_iso_md5sums_file (demo_tools 0) [''work''] demo_fs))
                  [''work'', ''md5sum.txt'']) (oct 4 4 4)) \<and>
   map_of (snd (regenerate_iso_md5sums_file (demo_tools 0) [''work''] demo_fs)) [''work''] =
     Some (Dir (oct 5 5 5))"
  using regenerate_restores_permissions [OF regenerate_demo]
  by (auto simp: resolve_demo_work parent_def)

text \<open>
  C7 as stated fails: the tree root is a directory, so the call passes its precondition
  check; the file \<^verbatim>\<open>secret\<close> cannot be read, the digest loop stops with
  \<^verbatim>\<open>PermissionError\<close>, and the call ends with the directory still at 0755 and the
  partial manifest at 0644.
\<close>

theorem regenerate_failure_keeps_write_bits:
  "resolve secret_fs [''work''] = Inr [''work''] \<and>
   is_dir secret_fs [''work''] \<and>
   fst (regenerate_iso_md5sums_file (demo_tools 0) [''work''] secret_fs) =
     Some (PermissionError [''work'', ''secret'']) \<and>
   map_of (snd (regenerate_iso_md5sums_file (demo_tools 0) [''work''] secret_fs)) [''work''] =
     Some (Dir (oct 7 5 5)) \<and>
   map_of (snd (regenerate_iso_md5sums_file (demo_tools 0) [''work''] secret_fs))
     [''work'', ''md5sum.txt''] =
     Some (File (''49f68a5c8493ec2c0bf489821c21fc3b  a.txt'' @ [CHR 0x0A] @
                 ''bfa99df33b137bc8fb5f5407d7e58da8  b/c.txt'' @ [CHR 0x0A]) (oct 6 4 4))"
  by (simp add: regen_defs fs_defs demo_fs_def demo_tools_def secret_fs_def)

text \<open>
  The same happens without any unreadable file: a symbolic link to a file outside the
  tree is collected under the path of that file, and \<^verbatim>\<open>relative_to\<close> raises
  \<^verbatim>\<open>ValueError\<close> inside the loop.
\<close>

lemma regenerate_link_outside_tree:
  "fst (regenerate_iso_md5sums_file (demo_tools 0) [''work''] outside_fs) =
     Some (ValueError [''srv'', ''debian.iso'']) \<and>
   map_of (snd (regenerate_iso_md5sums_file (demo_tools 0) [''work''] outside_fs)) [''work''] =
     Some (Dir (oct 7 5 5))"
  by (simp add: regen_defs fs_defs demo_fs_def demo_tools_def outside_fs_def demo_image_def)

text \<open>
  C10. After a call of \<^verbatim>\<open>regenerate_iso_md5sums_file\<close> that returns normally, take the
  tree as the call leaves it, without the manifest and with the root writable as it
  was during the enumeration: the list \<open>subpaths\<close> that \<^verbatim>\<open>find_all_files_under\<close> returns
  for this tree is the list of the manifest's entries. The manifest is the
  concatenation, in the order of the list, of one line per path of the list, made of
  the digest of the file at that path, two spaces, the path relative to the tree root
  and a newline. The path of the manifest is not in the list; every path of the list
  lies under the tree root and is a regular file, and none is written \<^verbatim>\<open>md5sum.txt\<close> in
  its line.
\<close>

theorem regenerate_omits_manifest:
  assumes "regenerate_iso_md5sums_file T root fs = (None, fs')"
  shows "\<exists>r subpaths.
           resolve fs root = Inr r \<and>
           find_all_files_under
             (AList.update r (Dir (oct 7 5 5)) (AList.delete (r @ [''md5sum.txt'']) fs')) r
             = Inr subpaths \<and>
           fread fs' (r @ [''md5sum.txt'']) =
             concat (map (\<lambda>p. manifest_line (md5_hexdigest T (fread fs' p))
                           (str_of_relpath (drop (length r) p))) subpaths) \<and>
           r @ [''md5sum.txt''] \<notin> set subpaths \<and>
           (\<forall>p\<in>set subpaths. prefix r p \<and> is_file fs' p \<and>
              str_of_relpath (drop (length r) p) \<noteq> ''md5sum.txt'')"
proof -
  from regenerate_steps [OF assms] obtain r fs1 subpaths body where
    rs: "resolve fs root = Inr r"
    and m1: "map_of fs1 (r @ [''md5sum.txt'']) = None"
    and r1: "map_of fs1 r = Some (Dir (oct 7 5 5))"
    and fa: "find_all_files_under fs1 r = Inr subpaths"
    and wm: "write_md5sums T (AList.update (r @ [''md5sum.txt'']) (File [] (oct 6 4 4)) fs1)
               r subpaths = (None, body)"
    and fs': "fs' = AList.update r (Dir (oct 5 5 5))
                      (AList.update (r @ [''md5sum.txt'']) (File body (oct 4 4 4)) fs1)"
    by blast
  define mp where "mp = r @ [''md5sum.txt'']"
  note m1 = m1 [folded mp_def] and wm = wm [folded mp_def] and fs' = fs' [folded mp_def]
  have ne: "r \<noteq> mp" by (simp add: mp_def)
  have "mp \<notin> fst ` set fs1"
    using m1 by (simp add: map_of_eq_None_iff)
  then have "AList.delete mp fs' = AList.update r (Dir (oct 5 5 5)) fs1"
    using ne by (simp add: fs' delete_update delete_update_same)
  then have undo: "AList.update r (Dir (oct 7 5 5)) (AList.delete mp fs') = fs1"
    using update_triv [OF r1] by simp
  have reg: "\<forall>p\<in>set subpaths. \<exists>c m. map_of fs1 p = Some (File c m)"
    using find_all_regular [OF fa] by blast
  have notin: "mp \<notin> set subpaths"
    using reg m1 by auto
  have keep: "map_of fs' p = map_of fs1 p \<and> p \<noteq> mp" if "p \<in> set subpaths" for p
  proof -
    from reg that obtain c m where p: "map_of fs1 p = Some (File c m)" by blast
    have "p \<noteq> mp" using notin that by auto
    moreover have "p \<noteq> r" using p r1 by auto
    ultimately show ?thesis by (simp add: fs' update_conv')
  qed
  have same: "fread fs' p = fread (AList.update mp (File [] (oct 6 4 4)) fs1) p"
    if "p \<in> set subpaths" for p
    using keep [OF that] by (simp add: fread_def update_conv')
  have reg2: "\<forall>p\<in>set subpaths.
      \<exists>c m. map_of (AList.update mp (File [] (oct 6 4 4)) fs1) p = Some (File c m)"
    using reg notin by (auto simp: update_conv')
  from write_md5sums_success [OF wm reg2] have
    body: "body = concat (map (\<lambda>p. manifest_line
               (md5_hexdigest T (fread (AList.update mp (File [] (oct 6 4 4)) fs1) p))
               (str_of_relpath (drop (length r) p))) subpaths)"
    and pre: "\<forall>p\<in>set subpaths. prefix r p"
    by simp_all
  have "fread fs' mp = body"
    using ne by (simp add: fread_def fs' update_conv')
  also have "body = concat (map (\<lambda>p. manifest_line (md5_hexdigest T (fread fs' p))
                           (str_of_relpath (drop (length r) p))) subpaths)"
    unfolding body using same by (intro arg_cong [where f = concat] map_cong) auto
  finally have manifest: "fread fs' mp =
      concat (map (\<lambda>p. manifest_line (md5_hexdigest T (fread fs' p))
                    (str_of_relpath (drop (length r) p))) subpaths)" .
  have each: "prefix r p \<and> is_file fs' p \<and> str_of_relpath (drop (length r) p) \<noteq> ''md5sum.txt''"
    if "p \<in> set subpaths" for p
  proof -
    from reg that obtain c m where p: "map_of fs1 p = Some (File c m)" by blast
    from keep [OF that] p have p': "map_of fs' p = Some (File c m)" "p \<noteq> mp" by simp_all
    have "is_file fs' p"
      using stat_physical [OF p'(1)] by (simp add: is_file_def is_symlink_def p'(1))
    moreover have pr: "prefix r p" using pre that by blast
    moreover have "str_of_relpath (drop (length r) p) \<noteq> ''md5sum.txt''"
    proof
      assume "str_of_relpath (drop (length r) p) = ''md5sum.txt''"
      then have "drop (length r) p = [''md5sum.txt'']" by (rule str_of_relpath_md5sum)
      with pr have "p = mp" by (auto simp: prefix_def mp_def)
      with p'(2) show False by simp
    qed
    ultimately show ?thesis by blast
  qed
  from rs fa undo manifest notin each show ?thesis
    unfolding mp_def by blast
qed

theorem regenerate_omits_manifest_witness:
  "\<exists>subpaths.
     find_all_files_under
       (AList.update [''work''] (Dir (oct 7 5 5))
          (AList.delete [''work'', ''md5sum.txt'']
             (snd (regenerate_iso_md5sums_file (demo_tools 0) [''work''] demo_fs))))
       [''work''] = Inr subpaths \<and>
     fread (snd (regenerate_iso_md5sums_file (demo_tools 0) [''work''] demo_fs))
       [''work'', ''md5sum.txt''] =
       concat (map (\<lambda>p. manifest_line
           (md5_hexdigest (demo_tools 0)
              (fread (snd (regenerate_iso_md5sums_file (demo_tools 0) [''work''] demo_fs)) p))
           (str_of_relpath (drop 1 p))) subpaths) \<and>
     [''work'', ''md5sum.txt''] \<notin> set subpaths \<and>
     list_all (\<lambda>p. prefix [''work''] p \<and>
                 is_file (snd (regenerate_iso_md5sums_file (demo_tools 0) [''work''] demo_fs)) p \<and>
                 str_of_relpath (drop 1 p) \<noteq> ''md5sum.txt'') subpaths"
  using regenerate_omits_manifest [OF regenerate_demo]
  by (auto simp: resolve_demo_work list_all_iff)

text \<open>The call of the example, in full: the two files of the tree, one line each.\<close>

lemma regenerate_demo_manifest:
  "find_all_files_under
     (AList.update [''work''] (Dir (oct 7 5 5))
        (AList.delete [''work'', ''md5sum.txt'']
           (snd (regenerate_iso_md5sums_file (demo_tools 0) [''work''] demo_fs))))
     [''work''] = Inr [[''work'', ''a.txt''], [''work'', ''b'', ''c.txt'']] \<and>
   fread (snd (regenerate_iso_md5sums_file (demo_tools 0) [''work''] demo_fs))
     [''work'', ''md5sum.txt''] =
   ''49f68a5c8493ec2c0bf489821c21fc3b  a.txt'' @ [CHR 0x0A] @
   ''bfa99df33b137bc8fb5f5407d7e58da8  b/c.txt'' @ [CHR 0x0A]"
  by (simp add: regen_defs fs_defs demo_fs_def demo_tools_def)

section \<open>Claims about the injection pipeline\<close>

lemma block_drop:
  "block stmts fs = (None, fs') \<Longrightarrow> \<exists>fsx. block (drop k stmts) fsx = (None, fs')"
proof (induction stmts arbitrary: k fs)
  case Nil
  then show ?case by simp
next
  case (Cons s stmts)
  show ?case
  proof (cases k)
    case 0
    with Cons.prems show ?thesis by auto
  next
    case (Suc j)
    from Cons.prems obtain fs1 where "block stmts fs1 = (None, fs')"
      by (auto split: prod.splits option.splits)
    from Cons.IH [OF this, of j] Suc show ?thesis by simp
  qed
qed

lemma map_of_rmtree:
  "map_of (rmtree t fs) p = (if prefix t p then None else map_of fs p)"
  by (induction fs) (auto simp: rmtree_def)

text \<open>
  C2 (as amended). When \<^verbatim>\<open>inject_files_into_iso\<close> returns normally, nothing exists any
  more at or below the three temporary directories (the extracted tree, the directory
  of the MBR file, the staging directory): the three \<^verbatim>\<open>cleanup()\<close> calls are the last
  statements of the function.
\<close>

theorem inject_success_releases:
  assumes "inject_files_into_iso T tmp1 tmp2 tmp3 out inp nm pr fs = (None, fs')"
    and "prefix tmp1 p \<or> prefix tmp2 p \<or> prefix tmp3 p"
  shows "map_of fs' p = None"
proof -
  from assms(1) obtain input_file output_file where
    B: "block (pipeline T tmp1 tmp2 tmp3 output_file input_file nm) fs = (None, fs')"
    by (auto simp: inject_files_into_iso_def split: sum.splits if_splits)
  define stmts where "stmts = pipeline T tmp1 tmp2 tmp3 output_file input_file nm"
  note B = B [folded stmts_def]
  have D: "drop 25 stmts = [cleanup tmp3, cleanup tmp2, cleanup tmp1]"
    by (simp add: stmts_def pipeline_def Let_def tree_commands_def staging_commands_def)
  from block_drop [OF B, of 25] D obtain fsx where
    "block [cleanup tmp3, cleanup tmp2, cleanup tmp1] fsx = (None, fs')"
    by auto
  then have "fs' = rmtree tmp1 (rmtree tmp2 (rmtree tmp3 fsx))"
    by (simp add: cleanup_def)
  with assms(2) show ?thesis
    by (auto simp: map_of_rmtree)
qed

lemmas find_tmp =
  find_all_files_under.simps [of _ "[''tmp'', ''t1'']"]
  find_all_files_under.simps [of _ "[''tmp'', ''t1'', ''install.386'']"]
  find_all_files_under.simps [of _ "[''tmp'', ''t1'', ''install.386'', ''gtk'']"]

lemmas pipeline_defs =
  inject_files_into_iso_def pipeline_def Let_def extract_iso_def mkdtemp_def cleanup_def rmtree_def system_def
  tree_commands_def staging_commands_def extract_mbr_from_iso_def
  append_file_contents_to_initrd_archive_def gunzip_file_def gzip_file_def popen_cpio_def
  regenerate_iso_md5sums_file_def write_md5sum_file_def find_tmp iterdir_def
  relative_to_def str_of_relpath_def str_of_path_def manifest_line_def
  repack_iso_def regex_search_def invalid_char_def isalnum_def ascii_alnum_def

lemma inject_demo:
  "inject_files_into_iso (demo_tools 0) [''tmp'', ''t1''] [''tmp'', ''t2''] [''tmp'', ''t3'']
     [''srv'', ''new.iso''] [''srv'', ''debian.iso''] [68, 101, 98, 105, 97, 110] NoPrinter
     host_fs =
   (None, host_fs @ [([''srv'', ''new.iso''], File ''iso'' (oct 6 4 4))])"
  by (simp add: pipeline_defs fs_defs host_fs_def demo_tools_def demo_image_def)

theorem inject_success_releases_witness:
  "inject_files_into_iso (demo_tools 0) [''tmp'', ''t1''] [''tmp'', ''t2''] [''tmp'', ''t3'']
     [''srv'', ''new.iso''] [''srv'', ''debian.iso''] [68, 101, 98, 105, 97, 110] NoPrinter
     host_fs =
   (None, host_fs @ [([''srv'', ''new.iso''], File ''iso'' (oct 6 4 4))]) \<and>
   map_of (host_fs @ [([''srv'', ''new.iso''], File ''iso'' (oct 6 4 4))])
     [''tmp'', ''t2'', ''mbr.bin''] = None"
  using inject_demo inject_success_releases [OF inject_demo, of "[''tmp'', ''t2'', ''mbr.bin'']"]
  by simp

text \<open>
  C2 as stated fails: \<^verbatim>\<open>xorriso\<close> exits with status 1 during the extraction,
  \<^verbatim>\<open>extract_iso\<close> raises \<^verbatim>\<open>RuntimeError\<close>, and the exception leaves
  \<^verbatim>\<open>inject_files_into_iso\<close> with the first temporary directory still in place.
\<close>

theorem inject_failure_leaves_directory:
  "fst (inject_files_into_iso (demo_tools 1) [''tmp'', ''t1''] [''tmp'', ''t2'']
          [''tmp'', ''t3''] [''srv'', ''new.iso''] [''srv'', ''debian.iso'']
          [68, 101, 98, 105, 97, 110] NoPrinter host_fs) =
     Some (RuntimeError (ExtractFailed [''srv'', ''debian.iso''])) \<and>
   map_of (snd (inject_files_into_iso (demo_tools 1) [''tmp'', ''t1''] [''tmp'', ''t2'']
          [''tmp'', ''t3''] [''srv'', ''new.iso''] [''srv'', ''debian.iso'']
          [68, 101, 98, 105, 97, 110] NoPrinter host_fs)) [''tmp'', ''t1''] =
     Some (Dir (oct 7 0 0))"
  by (simp add: inject_files_into_iso_def pipeline_def Let_def extract_iso_def mkdtemp_def
      fs_defs host_fs_def demo_tools_def demo_image_def)

section \<open>Claims about the source image\<close>

lemma intact_file:
  "image_intact I c fs \<Longrightarrow> \<exists>m. map_of fs I = Some (File c m)"
  by (auto simp: image_intact_def split: option.splits node.splits)

lemma intact_no_alias:
  assumes "image_intact I c fs" "p \<noteq> I"
  shows "follow n fs p \<noteq> Some I"
  using assms by (simp add: image_intact_def)

lemma follow_transfer:
  assumes sub: "\<And>p t. map_of fs' p = Some (Symlink t) \<Longrightarrow> map_of fs p = Some (Symlink t)"
    and I: "map_of fs I = Some (File c m)"
  shows "follow n fs' p = Some I \<Longrightarrow> p \<noteq> I \<Longrightarrow> follow n fs p = Some I"
proof (induction n arbitrary: p)
  case 0
  then show ?case by simp
next
  case (Suc n)
  show ?case
  proof (cases "\<exists>t. map_of fs' p = Some (Symlink t)")
    case True
    then obtain t where t: "map_of fs' p = Some (Symlink t)" by blast
    then have t': "map_of fs p = Some (Symlink t)" by (rule sub)
    from Suc.prems(1) t have f: "follow n fs' t = Some I" by simp
    show ?thesis
    proof (cases "t = I")
      case True
      with f have "n \<noteq> 0" by (cases n) auto
      then obtain k where "n = Suc k" by (cases n) auto
      with I True t' show ?thesis by simp
    next
      case False
      from Suc.IH [OF f False] t' show ?thesis by simp
    qed
  next
    case False
    then have "follow (Suc n) fs' p = Some p"
      by (auto split: option.splits node.splits)
    with Suc.prems show ?thesis by simp
  qed
qed

lemma intact_step:
  assumes "image_intact I c fs"
    and I': "map_of fs' I = Some (File c m')"
    and sub: "\<And>p t. map_of fs' p = Some (Symlink t) \<Longrightarrow> map_of fs p = Some (Symlink t)"
  shows "image_intact I c fs'"
proof -
  from intact_file [OF assms(1)] obtain m where I: "map_of fs I = Some (File c m)" by blast
  have "follow n fs' p \<noteq> Some I" if "p \<noteq> I" for p n
  proof
    assume "follow n fs' p = Some I"
    from follow_transfer [OF sub I this that] intact_no_alias [OF assms(1) that, of n]
    show False by simp
  qed
  with I' show ?thesis
    by (simp add: image_intact_def)
qed

lemma intact_update:
  assumes "image_intact I c fs" "q \<noteq> I" "\<And>t. n \<noteq> Symlink t"
  shows "image_intact I c (AList.update q n fs)"
proof -
  from intact_file [OF assms(1)] obtain m where I: "map_of fs I = Some (File c m)" by blast
  show ?thesis
    using assms(2,3) I
    by (intro intact_step [OF assms(1), of _ m]) (auto simp: update_conv' split: if_splits)
qed

lemma intact_update_self:
  assumes "image_intact I c fs"
  shows "image_intact I c (AList.update I (File c m) fs)"
  by (rule intact_step [OF assms, of _ m]) (auto simp: update_conv' split: if_splits)

lemma intact_delete:
  assumes "image_intact I c fs" "p \<noteq> I"
  shows "image_intact I c (AList.delete p fs)"
proof -
  from intact_file [OF assms(1)] obtain m where I: "map_of fs I = Some (File c m)" by blast
  show ?thesis
    using assms(2) I
    by (intro intact_step [OF assms(1), of _ m]) (auto simp: delete_conv' split: if_splits)
qed

lemma intact_rmtree:
  assumes "image_intact I c fs" "\<not> prefix t I"
  shows "image_intact I c (rmtree t fs)"
proof -
  from intact_file [OF assms(1)] obtain m where I: "map_of fs I = Some (File c m)" by blast
  show ?thesis
    using assms(2) I
    by (intro intact_step [OF assms(1), of _ m]) (auto simp: map_of_rmtree split: if_splits)
qed

lemma intact_extend:
  assumes "image_intact I c fs" "\<And>p t. (p, Symlink t) \<notin> set extra"
  shows "image_intact I c (fs @ extra)"
proof -
  from intact_file [OF assms(1)] obtain m where I: "map_of fs I = Some (File c m)" by blast
  show ?thesis
  proof (rule intact_step [OF assms(1), of _ m])
    show "map_of (fs @ extra) I = Some (File c m)"
      using I by (simp add: map_add_def)
  next
    fix p t assume "map_of (fs @ extra) p = Some (Symlink t)"
    then show "map_of fs p = Some (Symlink t)"
      using assms(2) by (auto simp: map_add_def split: option.splits dest: map_of_SomeD)
  qed
qed

lemma intact_exists:
  assumes "image_intact I c fs"
  shows "exists_path fs I"
proof -
  from intact_file [OF assms] obtain m where I: "map_of fs I = Some (File c m)" by blast
  then have "stat fs I = Some (I, File c m)"
    by (intro stat_physical) (simp_all add: is_symlink_def)
  then show ?thesis by (simp add: exists_path_def)
qed

lemma intact_resolve:
  assumes "image_intact I c fs" "p \<noteq> I" "resolve fs p = Inr q"
  shows "q \<noteq> I"
proof -
  from assms(3) obtain n where "follow n fs p = Some q"
    unfolding resolve_def using resolve_from_follow by blast
  with intact_no_alias [OF assms(1,2), of n] show ?thesis by auto
qed

lemma intact_chmod:
  assumes "image_intact I c fs" "chmod p m fs = Inr fs'"
  shows "image_intact I c fs'"
proof -
  from intact_file [OF assms(1)] obtain m0 where I: "map_of fs I = Some (File c m0)" by blast
  from chmod_Inr [OF assms(2)] obtain q where
    q: "(\<exists>c0 m1. map_of fs q = Some (File c0 m1) \<and> fs' = AList.update q (File c0 m) fs) \<or>
        (\<exists>m1. map_of fs q = Some (Dir m1) \<and> fs' = AList.update q (Dir m) fs)"
    by blast
  show ?thesis
  proof (cases "q = I")
    case True
    with q I have "fs' = AList.update I (File c m) fs" by auto
    then show ?thesis using intact_update_self [OF assms(1)] by simp
  next
    case False
    with q show ?thesis using intact_update [OF assms(1) False] by auto
  qed
qed

lemma intact_unlink:
  assumes "image_intact I c fs" "unlink p fs = Inr fs'" "p \<noteq> I"
  shows "image_intact I c fs'"
  using unlink_Inr [OF assms(2)] intact_delete [OF assms(1,3)] by simp

lemma intact_open_write:
  assumes "image_intact I c fs" "open_write fs p = Inr (h, fs')" "p \<noteq> I"
  shows "h \<noteq> I \<and> image_intact I c fs'"
proof -
  from assms(2) obtain m where h: "follow (Suc symloop_max) fs p = Some h"
    and fs': "fs' = AList.update h (File [] m) fs"
    by (auto simp: open_write_def split: option.splits node.splits if_splits)
  have "h \<noteq> I" using intact_no_alias [OF assms(1,3), of "Suc symloop_max"] h by auto
  then show ?thesis using intact_update [OF assms(1)] fs' by simp
qed

lemma intact_fwrite:
  assumes "image_intact I c fs" "h \<noteq> I"
  shows "image_intact I c (fwrite h d fs)"
  using assms(1) intact_update [OF assms]
  by (auto simp: fwrite_def split: option.splits node.splits)

lemma intact_mkdtemp:
  assumes "image_intact I c fs" "mkdtemp t fs = Inr fs'"
  shows "image_intact I c fs' \<and> map_of fs' t = Some (Dir (oct 7 0 0))"
proof -
  from intact_file [OF assms(1)] obtain m0 where I: "map_of fs I = Some (File c m0)" by blast
  from assms(2) have t: "map_of fs t = None" "fs' = AList.update t (Dir (oct 7 0 0)) fs"
    by (auto simp: mkdtemp_def split: if_splits option.splits node.splits)
  then have "t \<noteq> I" using I by auto
  then show ?thesis using intact_update [OF assms(1)] t by (simp add: update_conv')
qed

lemma intact_atomic:
  assumes "image_intact I c fs" "\<And>fs'. f fs = Inr fs' \<Longrightarrow> image_intact I c fs'"
  shows "image_intact I c (snd (atomic f fs))"
  using assms by (auto simp: atomic_def split: sum.splits)

lemma block_preserves:
  assumes "\<And>s fs. s \<in> set stmts \<Longrightarrow> P fs \<Longrightarrow> P (snd (s fs))" "P fs"
  shows "P (snd (block stmts fs))"
  using assms
proof (induction stmts arbitrary: fs)
  case Nil
  then show ?case by simp
next
  case (Cons s stmts)
  have "P (snd (s fs))" using Cons.prems by simp
  then show ?case
    using Cons.IH Cons.prems(1)
    by (cases "s fs") (auto split: option.splits)
qed

lemma block_first:
  assumes "P (snd (s fs))" "\<And>fs1. s fs = (None, fs1) \<Longrightarrow> P (snd (block stmts fs1))"
  shows "P (snd (block (s # stmts) fs))"
  using assms by (cases "s fs") (auto split: option.splits)

lemma intact_extract_mbr:
  assumes "image_intact I c fs"
  shows "image_intact I c (snd (extract_mbr_from_iso out src fs))"
proof (cases "resolve fs out")
  case (Inl e)
  then show ?thesis using assms by (simp add: extract_mbr_from_iso_def)
next
  case (Inr q)
  show ?thesis
  proof (cases "exists_path fs q")
    case True
    then show ?thesis using assms Inr by (simp add: extract_mbr_from_iso_def)
  next
    case False
    then have ne: "q \<noteq> I" using intact_exists [OF assms] by auto
    show ?thesis
      using assms Inr False intact_open_write [OF assms _ ne]
      by (auto simp: extract_mbr_from_iso_def intact_fwrite split: sum.splits prod.splits)
  qed
qed

lemma intact_gunzip_file:
  assumes "image_intact I c fs" "dst \<noteq> I"
  shows "image_intact I c (snd (gunzip_file T src dst fs))"
  using assms intact_open_write [OF assms(1) _ assms(2)]
  by (auto simp: gunzip_file_def intact_fwrite split: sum.splits prod.splits option.splits)

lemma intact_gzip_file:
  assumes "image_intact I c fs" "dst \<noteq> I"
  shows "image_intact I c (snd (gzip_file T src dst fs))"
  using assms intact_open_write [OF assms(1) _ assms(2)]
  by (auto simp: gzip_file_def intact_fwrite split: sum.splits prod.splits option.splits)

lemma name_of_snoc: "name_of (p @ [x]) = x"
  by (simp add: name_of_def)

lemma image_name:
  assumes "py_suffix (name_of I) \<in> set [''.iso'', ''.img'']"
  shows "name_of I \<noteq> ''initrd'' \<and> name_of I \<noteq> ''md5sum.txt''"
proof -
  have "py_suffix ''initrd'' = []" "py_suffix ''md5sum.txt'' = ''.txt''"
    by (simp_all add: py_suffix_def rfind_dot_def)
  with assms show ?thesis by auto
qed

lemma intact_popen_cpio:
  assumes "image_intact I c fs" "tools_spare T I c" "e \<noteq> I"
  shows "image_intact I c (snd (popen_cpio T e base rel fs))"
proof (cases "resolve fs e")
  case (Inl x)
  then show ?thesis using assms(1) by (simp add: popen_cpio_def)
next
  case (Inr q)
  have "q \<noteq> I" using intact_resolve [OF assms(1,3) Inr] .
  with assms(1,2) have "image_intact I c (snd (cpio_append T q base rel fs))"
    by (simp add: tools_spare_def)
  with assms(1) Inr show ?thesis
    by (auto simp: popen_cpio_def split: prod.splits)
qed

lemma intact_append:
  assumes P: "image_intact I c fs" and T: "tools_spare T I c"
    and a: "archive \<noteq> I" and n: "name_of I \<noteq> ''initrd''"
  shows "image_intact I c (snd (append_file_contents_to_initrd_archive T archive base rel fs))"
proof (cases "resolve fs archive")
  case (Inl x)
  then show ?thesis using P by (simp add: append_file_contents_to_initrd_archive_def)
next
  case (Inr A)
  define E where "E = with_suffix_empty A"
  have A: "A \<noteq> I" using intact_resolve [OF P a Inr] .
  show ?thesis
  proof (cases "is_file fs A \<and> name_of A = ''initrd.gz''")
    case False
    then show ?thesis
      using P Inr by (auto simp: append_file_contents_to_initrd_archive_def Let_def)
  next
    case True
    then have "py_suffix (name_of A) = ''.gz''"
      by (simp add: py_suffix_def rfind_dot_def)
    with True have "E = parent A @ [''initrd'']"
      by (simp add: E_def with_suffix_empty_def)
    then have "name_of E = ''initrd''" by (simp add: name_of_snoc)
    with n have E: "E \<noteq> I" by auto
    have "image_intact I c (snd (block
          [atomic (chmod A (oct 6 4 4)),
           atomic (chmod (parent A) (oct 7 5 5)),
           gunzip_file T A E,
           atomic (unlink A),
           popen_cpio T E base rel,
           gzip_file T E A,
           atomic (unlink E),
           atomic (chmod A (oct 4 4 4)),
           atomic (chmod (parent A) (oct 5 5 5))] fs))"
    proof (rule block_preserves [where P = "image_intact I c", OF _ P])
      fix s fs0
      assume s: "s \<in> set [atomic (chmod A (oct 6 4 4)),
           atomic (chmod (parent A) (oct 7 5 5)),
           gunzip_file T A E,
           atomic (unlink A),
           popen_cpio T E base rel,
           gzip_file T E A,
           atomic (unlink E),
           atomic (chmod A (oct 4 4 4)),
           atomic (chmod (parent A) (oct 5 5 5))]"
        and P0: "image_intact I c fs0"
      from s show "image_intact I c (snd (s fs0))"
        using P0 A E T
        by (auto intro!: intact_atomic intact_gunzip_file intact_gzip_file intact_popen_cpio
            elim: intact_chmod intact_unlink)
    qed
    with True Inr show ?thesis
      by (simp add: append_file_contents_to_initrd_archive_def Let_def E_def [symmetric]
          del: block.simps)
  qed
qed

lemma intact_write_md5sum_file:
  assumes P: "image_intact I c fs" and m: "mp \<noteq> I"
  shows "image_intact I c (snd (write_md5sum_file T r mp fs))"
  using P intact_open_write [OF P _ m]
  by (auto simp: write_md5sum_file_def intact_fwrite split: sum.splits prod.splits)

lemma intact_regenerate:
  assumes P: "image_intact I c fs" and n: "name_of I \<noteq> ''md5sum.txt''"
  shows "image_intact I c (snd (regenerate_iso_md5sums_file T root fs))"
proof (cases "resolve fs root")
  case (Inl x)
  then show ?thesis using P by (simp add: regenerate_iso_md5sums_file_def)
next
  case (Inr r)
  define mp where "mp = r @ [''md5sum.txt'']"
  have "name_of mp = ''md5sum.txt''" by (simp add: mp_def name_of_snoc)
  with n have m: "mp \<noteq> I" by auto
  have "image_intact I c (snd (block
          [atomic (chmod mp (oct 6 4 4)),
           atomic (chmod (parent mp) (oct 7 5 5)),
           atomic (unlink mp),
           write_md5sum_file T r mp,
           atomic (chmod mp (oct 4 4 4)),
           atomic (chmod (parent mp) (oct 5 5 5))] fs))"
  proof (rule block_preserves [where P = "image_intact I c", OF _ P])
    fix s fs0
    assume s: "s \<in> set [atomic (chmod mp (oct 6 4 4)),
           atomic (chmod (parent mp) (oct 7 5 5)),
           atomic (unlink mp),
           write_md5sum_file T r mp,
           atomic (chmod mp (oct 4 4 4)),
           atomic (chmod (parent mp) (oct 5 5 5))]"
      and P0: "image_intact I c fs0"
    from s show "image_intact I c (snd (s fs0))"
      using P0 m
      by (auto intro!: intact_atomic intact_write_md5sum_file
          elim: intact_chmod intact_unlink)
  qed
  with P Inr show ?thesis
    by (simp add: regenerate_iso_md5sums_file_def Let_def mp_def [symmetric]
        del: block.simps)
qed

lemma intact_repack:
  assumes P: "image_intact I c fs" and T: "tools_spare T I c"
  shows "image_intact I c (snd (repack_iso T out mbr root nm fs))"
proof -
  have "image_intact I c fs2"
    if "\<not> exists_path fs o'" "xorriso_mkisofs T nm o' m' r' fs = (rc, fs2)"
    for o' m' r' rc fs2
  proof -
    from that(1) have "o' \<noteq> I" using intact_exists [OF P] by auto
    with P T have "image_intact I c (snd (xorriso_mkisofs T nm o' m' r' fs))"
      by (simp add: tools_spare_def)
    with that(2) show ?thesis by simp
  qed
  with P show ?thesis
    by (auto simp: repack_iso_def split: sum.splits option.splits prod.splits)
qed

lemma intact_extract_iso:
  assumes P: "image_intact I c fs" and T: "tools_spare T I c"
    and d: "\<And>q. resolve fs out = Inr q \<Longrightarrow> \<not> prefix q I"
  shows "image_intact I c (snd (extract_iso T out inp fs))"
proof -
  have "image_intact I c fs2"
    if "resolve fs out = Inr o'" "xorriso_extract T i' o' fs = (rc, fs2)" for i' o' rc fs2
  proof -
    from P T d [OF that(1)] have "image_intact I c (snd (xorriso_extract T i' o' fs))"
      by (simp add: tools_spare_def)
    with that(2) show ?thesis by simp
  qed
  with P show ?thesis
    by (auto simp: extract_iso_def split: sum.splits prod.splits)
qed

lemma intact_system:
  assumes "image_intact I c fs" "tools_spare T I c"
  shows "image_intact I c (snd (system T cmd fs))"
  using assms by (simp add: system_def tools_spare_def)

lemma intact_cleanup:
  assumes "image_intact I c fs" "\<not> prefix t I"
  shows "image_intact I c (snd (cleanup t fs))"
  using intact_rmtree [OF assms] by (simp add: cleanup_def)

lemma extract_mbr_suffix:
  assumes "extract_mbr_from_iso out src fs = (None, fs')"
  shows "py_suffix (name_of src) \<in> set [''.iso'', ''.img'']"
  using assms by (auto simp: extract_mbr_from_iso_def split: sum.splits if_splits)

lemma extract_mbr_frame:
  assumes "map_of fs p = Some n"
  shows "map_of (snd (extract_mbr_from_iso out src fs)) p = Some n"
proof (cases "resolve fs out")
  case (Inl e)
  then show ?thesis using assms by (simp add: extract_mbr_from_iso_def)
next
  case (Inr q)
  show ?thesis
  proof (cases "exists_path fs q")
    case True
    then show ?thesis using assms Inr by (simp add: extract_mbr_from_iso_def)
  next
    case False
    have w: "map_of fs1 p = Some n \<and> h \<noteq> p"
      if "open_write fs q = Inr (h, fs1)" for h fs1
    proof -
      from that obtain m where h: "follow (Suc symloop_max) fs q = Some h"
        and fs1: "fs1 = AList.update h (File [] m) fs"
        by (auto simp: open_write_def split: option.splits node.splits if_splits)
      from False h have "map_of fs h = None"
        by (auto simp: exists_path_def stat_def split: option.splits)
      with assms fs1 show ?thesis by (auto simp: update_conv')
    qed
    show ?thesis
      using assms Inr False w
      by (auto simp: extract_mbr_from_iso_def fwrite_def update_conv'
          split: sum.splits prod.splits option.splits node.splits)
  qed
qed

lemma intact_pipeline:
  assumes P: "image_intact I c fs" and T: "tools_spare T I c"
    and t: "\<not> prefix tmp1 I" "\<not> prefix tmp2 I" "\<not> prefix tmp3 I"
  shows "image_intact I c (snd (block (pipeline T tmp1 tmp2 tmp3 out I nm) fs))"
proof -
  define arch where "arch = (if substring_in ''amd64'' (name_of I) then ''amd'' else ''386'')"
  define dist where
    "dist = (if substring_in ''debian-12'' (name_of I) then ''bookworm'' else ''bullseye'')"
  define testing where "testing = (if dist = ''bookworm'' then ''testing'' else [])"
  define rest where "rest =
      map (system T) (tree_commands (str_of_path tmp1) arch dist testing)
      @ [atomic (mkdtemp tmp3)]
      @ map (system T) (staging_commands (str_of_path tmp3))
      @ [append_file_contents_to_initrd_archive T
           (tmp1 @ [''install.'' @ arch, ''gtk'', ''initrd.gz''])
           tmp3 ''usr/share/graphics/logo_debian.png'',
         regenerate_iso_md5sums_file T tmp1,
         repack_iso T out (tmp2 @ [''mbr.bin'']) tmp1 nm,
         cleanup tmp3, cleanup tmp2, cleanup tmp1]"
  have pl: "pipeline T tmp1 tmp2 tmp3 out I nm =
      atomic (mkdtemp tmp1) # extract_iso T tmp1 I # atomic (mkdtemp tmp2)
        # extract_mbr_from_iso (tmp2 @ [''mbr.bin'']) I # rest"
    by (simp add: pipeline_def Let_def rest_def arch_def dist_def testing_def)
  have a: "tmp1 @ [''install.'' @ arch, ''gtk'', ''initrd.gz''] \<noteq> I"
    using t(1) by (auto simp: prefix_def)
  have rest: "image_intact I c (snd (block rest fs4))"
    if P4: "image_intact I c fs4" and sfx: "py_suffix (name_of I) \<in> set [''.iso'', ''.img'']"
    for fs4
  proof (rule block_preserves [where P = "image_intact I c", OF _ P4])
    fix s fs0
    assume s: "s \<in> set rest" and P0: "image_intact I c fs0"
    from image_name [OF sfx] have n: "name_of I \<noteq> ''initrd''" "name_of I \<noteq> ''md5sum.txt''"
      by simp_all
    from s have "(\<exists>cmd. s = system T cmd) \<or> s = atomic (mkdtemp tmp3) \<or>
        s = append_file_contents_to_initrd_archive T
           (tmp1 @ [''install.'' @ arch, ''gtk'', ''initrd.gz''])
           tmp3 ''usr/share/graphics/logo_debian.png'' \<or>
        s = regenerate_iso_md5sums_file T tmp1 \<or>
        s = repack_iso T out (tmp2 @ [''mbr.bin'']) tmp1 nm \<or>
        s = cleanup tmp3 \<or> s = cleanup tmp2 \<or> s = cleanup tmp1"
      unfolding rest_def by auto
    then show "image_intact I c (snd (s fs0))"
      using P0 T t a n
      by (auto intro!: intact_system intact_atomic intact_append intact_regenerate
          intact_repack intact_cleanup dest: intact_mkdtemp)
  qed
  have "image_intact I c (snd (block (atomic (mkdtemp tmp1) # extract_iso T tmp1 I
          # atomic (mkdtemp tmp2) # extract_mbr_from_iso (tmp2 @ [''mbr.bin'']) I # rest) fs))"
  proof (rule block_first)
    show "image_intact I c (snd (atomic (mkdtemp tmp1) fs))"
      using P by (auto intro!: intact_atomic dest: intact_mkdtemp)
  next
    fix fs1 assume s1: "atomic (mkdtemp tmp1) fs = (None, fs1)"
    then have m1: "mkdtemp tmp1 fs = Inr fs1"
      by (auto simp: atomic_def split: sum.splits)
    from intact_mkdtemp [OF P m1] have P1: "image_intact I c fs1"
      and d1: "map_of fs1 tmp1 = Some (Dir (oct 7 0 0))" by simp_all
    have "resolve fs1 tmp1 = Inr tmp1"
      using d1 by (intro resolve_not_symlink) (simp add: is_symlink_def)
    with t(1) have nd: "\<not> prefix q I" if "resolve fs1 tmp1 = Inr q" for q
      using that by simp
    show "image_intact I c (snd (block (extract_iso T tmp1 I
          # atomic (mkdtemp tmp2) # extract_mbr_from_iso (tmp2 @ [''mbr.bin'']) I # rest) fs1))"
    proof (rule block_first)
      show "image_intact I c (snd (extract_iso T tmp1 I fs1))"
        using intact_extract_iso [where out = tmp1, OF P1 T nd] .
    next
      fix fs2 assume s2: "extract_iso T tmp1 I fs1 = (None, fs2)"
      have P2: "image_intact I c fs2"
        using intact_extract_iso [where out = tmp1 and inp = I, OF P1 T nd] s2 by simp
      show "image_intact I c (snd (block (atomic (mkdtemp tmp2)
          # extract_mbr_from_iso (tmp2 @ [''mbr.bin'']) I # rest) fs2))"
      proof (rule block_first)
        show "image_intact I c (snd (atomic (mkdtemp tmp2) fs2))"
          using P2 by (auto intro!: intact_atomic dest: intact_mkdtemp)
      next
        fix fs3 assume s3: "atomic (mkdtemp tmp2) fs2 = (None, fs3)"
        have P3: "image_intact I c fs3"
          using P2 s3 by (auto simp: atomic_def split: sum.splits dest: intact_mkdtemp)
        show "image_intact I c (snd (block
            (extract_mbr_from_iso (tmp2 @ [''mbr.bin'']) I # rest) fs3))"
        proof (rule block_first)
          show "image_intact I c (snd (extract_mbr_from_iso (tmp2 @ [''mbr.bin'']) I fs3))"
            using intact_extract_mbr [OF P3] .
        next
          fix fs4 assume s4: "extract_mbr_from_iso (tmp2 @ [''mbr.bin'']) I fs3 = (None, fs4)"
          have P4: "image_intact I c fs4"
            using intact_extract_mbr [OF P3, of "tmp2 @ [''mbr.bin'']" I] s4 by simp
          show "image_intact I c (snd (block rest fs4))"
            using rest [OF P4 extract_mbr_suffix [OF s4]] .
        qed
      qed
    qed
  qed
  then show ?thesis by (simp only: pl)
qed

text \<open>
  What holds of the source image: \<^verbatim>\<open>extract_mbr_from_iso\<close> changes no node that exists,
  and the extraction and the whole pipeline leave the image intact when no symbolic
  link leads to the image, the external programs leave it intact, and the image lies
  neither in the output directory of the extraction nor in a temporary directory.
\<close>

lemma source_image_untouched:
  assumes "image_intact I c fs" and "tools_spare T I c"
    and "\<And>d. resolve fs output_dir = Inr d \<Longrightarrow> \<not> prefix d I"
    and "\<not> prefix tmp1 I" "\<not> prefix tmp2 I" "\<not> prefix tmp3 I"
    and "resolve fs inp = Inr I"
  shows "map_of (snd (extract_mbr_from_iso output_file inp fs)) I = map_of fs I \<and>
         image_intact I c (snd (extract_iso T output_dir inp fs)) \<and>
         image_intact I c
           (snd (inject_files_into_iso T tmp1 tmp2 tmp3 output_iso inp nm printer fs))"
proof -
  from intact_file [OF assms(1)] obtain m where "map_of fs I = Some (File c m)" by blast
  then have a: "map_of (snd (extract_mbr_from_iso output_file inp fs)) I = map_of fs I"
    using extract_mbr_frame [of fs I] by simp
  have b: "image_intact I c (snd (extract_iso T output_dir inp fs))"
    using intact_extract_iso [OF assms(1,2,3)] .
  have "image_intact I c (snd (block (pipeline T tmp1 tmp2 tmp3 out I nm) fs))" for out
    using intact_pipeline [OF assms(1,2,4,5,6)] .
  then have c: "image_intact I c
           (snd (inject_files_into_iso T tmp1 tmp2 tmp3 output_iso inp nm printer fs))"
    using assms(1,7) by (simp add: inject_files_into_iso_def split: sum.splits)
  from a b c show ?thesis by simp
qed

lemma demo_tools_spare: "tools_spare (demo_tools 0) I c"
  unfolding tools_spare_def
proof (intro conjI allI impI)
  fix src dst :: path and fs :: fs
  assume "image_intact I c fs"
  then show "image_intact I c (snd (xorriso_extract (demo_tools 0) src dst fs))"
    by (auto simp: demo_tools_def intro!: intact_extend)
next
  fix cmd :: string and fs :: fs
  assume "image_intact I c fs"
  then show "image_intact I c (os_system (demo_tools 0) cmd fs)"
    by (simp add: demo_tools_def)
next
  fix archive cwd :: path and inp :: string and fs :: fs
  assume "archive \<noteq> I" "image_intact I c fs"
  then show "image_intact I c (snd (cpio_append (demo_tools 0) archive cwd inp fs))"
    by (simp add: demo_tools_def intact_fwrite)
next
  fix nm :: "nat list" and out mbr root :: path and fs :: fs
  assume "out \<noteq> I" "image_intact I c fs"
  then show "image_intact I c (snd (xorriso_mkisofs (demo_tools 0) nm out mbr root fs))"
    by (simp add: demo_tools_def intact_update)
qed

lemma source_image_untouched_example:
  "image_intact [''srv'', ''debian.iso''] demo_image host_fs \<and>
   map_of (snd (extract_mbr_from_iso [''tmp'', ''mbr.bin''] [''srv'', ''debian.iso''] host_fs))
     [''srv'', ''debian.iso''] = Some (File demo_image (oct 6 4 4)) \<and>
   image_intact [''srv'', ''debian.iso''] demo_image
     (snd (extract_iso (demo_tools 0) [''tmp''] [''srv'', ''debian.iso''] host_fs)) \<and>
   image_intact [''srv'', ''debian.iso''] demo_image
     (snd (inject_files_into_iso (demo_tools 0) [''tmp'', ''t1''] [''tmp'', ''t2'']
        [''tmp'', ''t3''] [''srv'', ''new.iso''] [''srv'', ''debian.iso'']
        [68, 101, 98, 105, 97, 110] NoPrinter host_fs))"
proof -
  have "follow n host_fs p \<noteq> Some [''srv'', ''debian.iso'']"
    if "p \<noteq> [''srv'', ''debian.iso'']" for p n
  proof (cases n)
    case 0
    then show ?thesis by simp
  next
    case (Suc k)
    have "map_of host_fs p \<noteq> Some (Symlink t)" for t
      by (simp add: host_fs_def)
    then have "follow (Suc k) host_fs p = Some p"
      by (auto split: option.splits node.splits)
    with Suc that show ?thesis by simp
  qed
  then have h1: "image_intact [''srv'', ''debian.iso''] demo_image host_fs"
    by (simp add: image_intact_def host_fs_def)
  have h3: "\<not> prefix d [''srv'', ''debian.iso'']" if "resolve host_fs [''tmp''] = Inr d" for d
    using that by (auto simp: fs_defs host_fs_def)
  have h4: "\<not> prefix [''tmp'', ''t1''] [''srv'', ''debian.iso'']"
    "\<not> prefix [''tmp'', ''t2''] [''srv'', ''debian.iso'']"
    "\<not> prefix [''tmp'', ''t3''] [''srv'', ''debian.iso'']"
    by simp_all
  have h7: "resolve host_fs [''srv'', ''debian.iso''] = Inr [''srv'', ''debian.iso'']"
    by (simp add: fs_defs host_fs_def)
  have m: "map_of host_fs [''srv'', ''debian.iso''] = Some (File demo_image (oct 6 4 4))"
    by (simp add: host_fs_def)
  show ?thesis
    using h1 m source_image_untouched [where output_dir = "[''tmp'']"
        and output_file = "[''tmp'', ''mbr.bin'']" and output_iso = "[''srv'', ''new.iso'']"
        and nm = "[68, 101, 98, 105, 97, 110]" and printer = NoPrinter,
        OF h1 demo_tools_spare h3 h4 h7]
    by simp
qed

lemma inject_crafted:
  "inject_files_into_iso crafted_tools [''tmp'', ''t1''] [''tmp'', ''t2''] [''tmp'', ''t3'']
     [''srv'', ''new.iso''] [''srv'', ''debian.iso''] [68, 101, 98, 105, 97, 110] NoPrinter
     host_fs =
   (None,
    [([], Dir (oct 7 5 5)),
     ([''tmp''], Dir (oct 7 7 7)),
     ([''srv''], Dir (oct 7 5 5)),
     ([''srv'', ''debian.iso''], File ''cpiousr/share/graphics/logo_debian.png'' (oct 6 4 4)),
     ([''srv'', ''new.iso''], File ''iso'' (oct 6 4 4))])"
  by (simp add: pipeline_defs fs_defs host_fs_def demo_tools_def crafted_tools_def demo_image_def)

text \<open>
  C9 fails on the code. The tree of the image holds, next to \<^verbatim>\<open>install.386/gtk/initrd.gz\<close>,
  a symbolic link \<^verbatim>\<open>install.386/gtk/initrd\<close> to the path of the image itself. The call
  returns normally, and \<^verbatim>\<open>append_file_contents_to_initrd_archive\<close> has opened the link
  for writing to decompress the archive: the image now holds the decompressed archive
  and what \<^verbatim>\<open>cpio\<close> appended to it.
\<close>

theorem inject_overwrites_linked_image:
  "fread host_fs [''srv'', ''debian.iso''] = demo_image \<and>
   fst (inject_files_into_iso crafted_tools [''tmp'', ''t1''] [''tmp'', ''t2'']
          [''tmp'', ''t3''] [''srv'', ''new.iso''] [''srv'', ''debian.iso'']
          [68, 101, 98, 105, 97, 110] NoPrinter host_fs) = None \<and>
   fread (snd (inject_files_into_iso crafted_tools [''tmp'', ''t1''] [''tmp'', ''t2'']
          [''tmp'', ''t3''] [''srv'', ''new.iso''] [''srv'', ''debian.iso'']
          [68, 101, 98, 105, 97, 110] NoPrinter host_fs)) [''srv'', ''debian.iso''] =
     ''cpiousr/share/graphics/logo_debian.png''"
  unfolding inject_crafted by (simp add: fread_def host_fs_def)

end
